theory Spec2Isabelle
  imports Complex_Main "HOL-Library.Sublist"
begin

section \<open>Data model of bda-to-word.py\<close>

text \<open>
  The transcript engine of \<^verbatim>\<open>bda-to-word.py\<close>: the turn builder
  (\<^verbatim>\<open>create_turn_by_turn_segments\<close>), the segment merger
  (\<^verbatim>\<open>merge_speaker_segments\<close>), the sentiment classifier
  (\<^verbatim>\<open>generate_sentiment\<close>) and the row loop of the renderer
  (\<^verbatim>\<open>write_transcribe_text\<close>).

  Conventions of the embedding.
  \<^item> A Python float is the real number it stands for, and every float operation of the
    source rounds its exact result to the nearest double, ties to even (\<open>round_double\<close>).
    The exponent range is not bounded: overflow, infinities, NaN and subnormal numbers
    are outside the model, and the times, scores and confidences of a transcript are far
    inside the normal range.
  \<^item> Python strings are \<open>string\<close>; \<open>len\<close> and \<open>lower\<close> agree with the model on ASCII text.
  \<^item> Every object of the source is a value here. The list handed to the merger is the one
    built by the turn builder, which allocates a fresh \<^verbatim>\<open>SpeechSegment\<close> and fresh token
    dictionaries per turn, so that no two entries of the list share an object.
  \<^item> A raised exception is the left summand of a result.
\<close>

datatype error = AttributeError | IndexError | KeyError | ClientError

subsection \<open>Double-precision arithmetic\<close>

text \<open>\<open>ilog2 n\<close> is the position of the highest set bit of \<open>n\<close>, and \<open>pow2 k\<close> is two to
  the power \<open>k\<close> for an integer \<open>k\<close>.\<close>

fun ilog2 :: "nat \<Rightarrow> nat" where
  "ilog2 n = (if n < 2 then 0 else Suc (ilog2 (n div 2)))"

definition pow2 :: "int \<Rightarrow> real" where
  "pow2 k = (if 0 \<le> k then 2 ^ nat k else 1 / 2 ^ nat (- k))"

text \<open>The binary exponent \<open>e\<close> of a positive number \<open>x\<close>: \<open>pow2 e \<le> x < pow2 (e + 1)\<close>.\<close>

definition exponent :: "real \<Rightarrow> int" where
  "exponent x =
     (if 1 \<le> x then int (ilog2 (nat \<lfloor>x\<rfloor>))
      else - (int (ilog2 (nat (\<lceil>1 / x\<rceil> - 1))) + 1))"

text \<open>Rounding to the nearest integer, a tie to the even one.\<close>

definition round_even :: "real \<Rightarrow> int" where
  "round_even x =
     (let f = \<lfloor>x\<rfloor>; d = x - of_int f
      in if d < 1 / 2 then f else if 1 / 2 < d then f + 1 else if even f then f else f + 1)"

text \<open>Rounding to a significand of 53 bits: the unit in the last place of \<open>x\<close> is
  \<open>pow2 (exponent \<bar>x\<bar> - 52)\<close>.\<close>

definition round_double :: "real \<Rightarrow> real" where
  "round_double x =
     (if x = 0 then 0
      else (let u = pow2 (exponent \<bar>x\<bar> - 52) in of_int (round_even (x / u)) * u))"

text \<open>The float operations of the source: \<^verbatim>\<open>float(n)\<close> of an integer, \<^verbatim>\<open>a - b\<close>,
  \<^verbatim>\<open>a / b\<close>, \<^verbatim>\<open>a * b\<close>, and a decimal literal such as \<^verbatim>\<open>0.4\<close>, which denotes the double
  nearest to it.\<close>

definition float_of_int :: "int \<Rightarrow> real" where
  "float_of_int n = round_double (of_int n)"

definition float_sub :: "real \<Rightarrow> real \<Rightarrow> real" where
  "float_sub a b = round_double (a - b)"

definition float_div :: "real \<Rightarrow> real \<Rightarrow> real" where
  "float_div a b = round_double (a / b)"

definition float_mul :: "real \<Rightarrow> real \<Rightarrow> real" where
  "float_mul a b = round_double (a * b)"

definition float_literal :: "real \<Rightarrow> real" where
  "float_literal x = round_double x"

subsection \<open>Records of the source\<close>

text \<open>One entry of \<^verbatim>\<open>segmentConfidence\<close>: the dictionary with keys
  \<^verbatim>\<open>text\<close>, \<^verbatim>\<open>confidence\<close>, \<^verbatim>\<open>start_time\<close>, \<^verbatim>\<open>end_time\<close>.\<close>

record word_conf =
  w_text :: string
  w_confidence :: real
  w_start_time :: real
  w_end_time :: real

text \<open>One moderation category of the input: keys \<^verbatim>\<open>category\<close> and \<^verbatim>\<open>confidence\<close>.\<close>

record guardrail =
  g_category :: string
  g_confidence :: real

text \<open>The \<^verbatim>\<open>SentimentScore\<close> dictionary of a Comprehend response.\<close>

record sentiment_score =
  Positive :: real
  Negative :: real
  Neutral :: real
  Mixed :: real

text \<open>Class \<^verbatim>\<open>SpeechSegment\<close>. The attribute \<^verbatim>\<open>segmentAllSentiments\<close> exists only once
  the classifier has stored it.\<close>

record SpeechSegment =
  segmentStartTime :: real
  segmentEndTime :: real
  segmentSpeaker :: string
  segmentText :: string
  segmentLanguage :: string
  segmentConfidence :: "word_conf list"
  segmentContentModeration :: "guardrail list"
  segmentSentimentScore :: real
  segmentPositive :: real
  segmentNegative :: real
  segmentIsPositive :: bool
  segmentIsNegative :: bool
  segmentAllSentiments :: "sentiment_score option"

text \<open>The constructor \<^verbatim>\<open>SpeechSegment()\<close>.\<close>

definition new_SpeechSegment :: SpeechSegment where
  "new_SpeechSegment =
     \<lparr>segmentStartTime = 0, segmentEndTime = 0, segmentSpeaker = '''', segmentText = '''',
      segmentLanguage = '''', segmentConfidence = [], segmentContentModeration = [],
      segmentSentimentScore = - 1, segmentPositive = 0, segmentNegative = 0,
      segmentIsPositive = False, segmentIsNegative = False, segmentAllSentiments = None\<rparr>"

definition START_NEW_SEGMENT_DELAY :: real where
  "START_NEW_SEGMENT_DELAY = 2.0"

section \<open>The segment merger\<close>

text \<open>
  The local variables of \<^verbatim>\<open>merge_speaker_segments\<close>. \<^verbatim>\<open>lastSegment\<close> is \<^verbatim>\<open>None\<close> until the
  first append and afterwards always the object appended last, that is the last element of
  \<^verbatim>\<open>outputSegmentList\<close>; an assignment through it changes that element.
\<close>

record merge_vars =
  outputSegmentList :: "SpeechSegment list"
  lastSpeaker :: string
  lastLanguage :: string

definition lastSegment :: "merge_vars \<Rightarrow> SpeechSegment option" where
  "lastSegment st =
     (if outputSegmentList st = [] then None else Some (last (outputSegmentList st)))"

definition merge_init :: merge_vars where
  "merge_init = \<lparr>outputSegmentList = [], lastSpeaker = '''', lastLanguage = ''''\<rparr>"

text \<open>The first branch of the loop body: append and make the segment the new base.\<close>

definition start_new :: "merge_vars \<Rightarrow> SpeechSegment \<Rightarrow> merge_vars" where
  "start_new st segment =
     \<lparr>outputSegmentList = outputSegmentList st @ [segment],
      lastSpeaker = segmentSpeaker segment,
      lastLanguage = segmentLanguage segment\<rparr>"

text \<open>The second branch, once \<^verbatim>\<open>segment.segmentConfidence[0]\<close> is known to exist: the
  four assignments to the last output segment.\<close>

definition copy_to_last ::
    "SpeechSegment \<Rightarrow> SpeechSegment \<Rightarrow> word_conf \<Rightarrow> word_conf list \<Rightarrow> SpeechSegment" where
  "copy_to_last lastSeg segment w ws =
     lastSeg\<lparr>segmentEndTime := segmentEndTime segment,
             segmentText := segmentText lastSeg @ '' '' @ segmentText segment,
             segmentConfidence :=
               segmentConfidence lastSeg @ (w\<lparr>w_text := '' '' @ w_text w\<rparr> # ws)\<rparr>"

text \<open>
  One iteration. The condition is an \<^verbatim>\<open>or\<close> chain evaluated left to right: when the speaker
  differs nothing else is looked at; otherwise \<^verbatim>\<open>lastSegment.segmentEndTime\<close> is read, which
  raises \<^verbatim>\<open>AttributeError\<close> while \<^verbatim>\<open>lastSegment\<close> is \<^verbatim>\<open>None\<close>. In the merging branch
  \<^verbatim>\<open>segment.segmentConfidence[0]\<close> raises \<^verbatim>\<open>IndexError\<close> on an empty list.
\<close>

definition merge_step :: "merge_vars \<Rightarrow> SpeechSegment \<Rightarrow> error + merge_vars" where
  "merge_step st segment =
     (if segmentSpeaker segment \<noteq> lastSpeaker st then Inr (start_new st segment)
      else case lastSegment st of
        None \<Rightarrow> Inl AttributeError
      | Some lastSeg \<Rightarrow>
          if float_sub (segmentStartTime segment) (segmentEndTime lastSeg)
               \<ge> START_NEW_SEGMENT_DELAY
             \<or> segmentLanguage segment \<noteq> lastLanguage st
             \<or> segmentContentModeration segment \<noteq> []
          then Inr (start_new st segment)
          else (case segmentConfidence segment of
                  [] \<Rightarrow> Inl IndexError
                | w # ws \<Rightarrow>
                    Inr (st\<lparr>outputSegmentList :=
                              butlast (outputSegmentList st)
                                @ [copy_to_last lastSeg segment w ws]\<rparr>)))"

fun merge_loop :: "merge_vars \<Rightarrow> SpeechSegment list \<Rightarrow> error + merge_vars" where
  "merge_loop st [] = Inr st"
| "merge_loop st (segment # rest) =
     (case merge_step st segment of
        Inl e \<Rightarrow> Inl e
      | Inr st' \<Rightarrow> merge_loop st' rest)"

definition merge_speaker_segments :: "SpeechSegment list \<Rightarrow> error + SpeechSegment list" where
  "merge_speaker_segments input_segment_list =
     (case merge_loop merge_init input_segment_list of
        Inl e \<Rightarrow> Inl e
      | Inr st \<Rightarrow> Inr (outputSegmentList st))"

subsection \<open>The merge contract in the words of the specification\<close>

text \<open>
  The specification states the merger as a left fold over the output list. These
  definitions follow its wording, not the code: the four continuation conditions compare
  the segment with the previous output segment itself (the code compares with the saved
  \<^verbatim>\<open>lastSpeaker\<close> and \<^verbatim>\<open>lastLanguage\<close>), the fold starts without a previous segment, and
  it has no failing case. The gap is the difference of the two stored times as the
  program computes it, in double precision.
\<close>

definition GAP_THRESHOLD :: real where
  "GAP_THRESHOLD = 2.0"

definition continues :: "SpeechSegment \<Rightarrow> SpeechSegment \<Rightarrow> bool" where
  "continues previous segment =
     (segmentSpeaker segment = segmentSpeaker previous
      \<and> float_sub (segmentStartTime segment) (segmentEndTime previous) < GAP_THRESHOLD
      \<and> segmentLanguage segment = segmentLanguage previous
      \<and> segmentContentModeration segment = [])"

text \<open>The absorbed segment's first token gets a leading space.\<close>

fun lead_space :: "word_conf list \<Rightarrow> word_conf list" where
  "lead_space [] = []"
| "lead_space (w # ws) = w\<lparr>w_text := '' '' @ w_text w\<rparr> # ws"

definition absorb :: "SpeechSegment \<Rightarrow> SpeechSegment \<Rightarrow> SpeechSegment" where
  "absorb previous segment =
     previous\<lparr>segmentEndTime := segmentEndTime segment,
              segmentText := segmentText previous @ '' '' @ segmentText segment,
              segmentConfidence :=
                segmentConfidence previous @ lead_space (segmentConfidence segment)\<rparr>"

definition spec_step :: "SpeechSegment list \<Rightarrow> SpeechSegment \<Rightarrow> SpeechSegment list" where
  "spec_step out segment =
     (if out \<noteq> [] \<and> continues (last out) segment
      then butlast out @ [absorb (last out) segment]
      else out @ [segment])"

definition spec_merge :: "SpeechSegment list \<Rightarrow> SpeechSegment list" where
  "spec_merge xs = foldl spec_step [] xs"

subsection \<open>Predicates used to state the properties\<close>

text \<open>What the loop keeps true: the saved speaker and language are those of the last output
  segment, and the initial empty strings while there is none.\<close>

definition merge_inv :: "merge_vars \<Rightarrow> bool" where
  "merge_inv st =
     (case lastSegment st of
        None \<Rightarrow> lastSpeaker st = '''' \<and> lastLanguage st = ''''
      | Some l \<Rightarrow> lastSpeaker st = segmentSpeaker l \<and> lastLanguage st = segmentLanguage l)"

text \<open>No segment of the list continues the one before it.\<close>

fun separated :: "SpeechSegment list \<Rightarrow> bool" where
  "separated [] = True"
| "separated [a] = True"
| "separated (a # b # r) = (\<not> continues a b \<and> separated (b # r))"

text \<open>\<open>begins a b\<close>: the output entry \<open>b\<close> is the input segment \<open>a\<close>, possibly extended at its
  end by later segments: same start, speaker, language and moderation flags, and the text
  and tokens of \<open>a\<close> at the front of those of \<open>b\<close>.\<close>

definition begins :: "SpeechSegment \<Rightarrow> SpeechSegment \<Rightarrow> bool" where
  "begins a b =
     (segmentStartTime b = segmentStartTime a
      \<and> segmentSpeaker b = segmentSpeaker a
      \<and> segmentLanguage b = segmentLanguage a
      \<and> segmentContentModeration b = segmentContentModeration a
      \<and> prefix (segmentText a) (segmentText b)
      \<and> prefix (segmentConfidence a) (segmentConfidence b))"

section \<open>The word assembler and the turn builder\<close>

text \<open>
  The input of \<^verbatim>\<open>create_turn_by_turn_segments\<close> is the parsed JSON of a job. An entry of
  \<^verbatim>\<open>data["audio_items"]\<close> that has the key \<^verbatim>\<open>start_timestamp_millis\<close> is a word with its
  content and its two timestamps; any other entry is punctuation and has a content only.
  A turn of \<^verbatim>\<open>data["audio_segments"]\<close> carries the speaker label, its text, its language,
  its timestamps and the indices of its items. \<^verbatim>\<open>data["audio"]["content_moderation"]\<close> may
  be absent; when present it holds, per turn, the list \<^verbatim>\<open>moderation_categories\<close>.
  Timestamps in milliseconds are integers.
\<close>

datatype audio_item = Word string int int | Punctuation string

record turn =
  start_timestamp_millis :: int
  end_timestamp_millis :: int
  speaker_label :: string
  turn_text :: string
  language :: string
  audio_item_indices :: "int list"

record bda_data =
  audio_segments :: "turn list"
  audio_items :: "audio_item list"
  content_moderation :: "guardrail list list option"

record cli_args =
  guardrailCheck :: string
  guardrailLimit :: real
  sentiment :: string

text \<open>Subscripting a Python list with an integer: a negative index counts from the end, and
  an index outside the list raises \<^verbatim>\<open>IndexError\<close>.\<close>

definition py_index :: "'a list \<Rightarrow> int \<Rightarrow> error + 'a" where
  "py_index xs i =
     (if 0 \<le> i \<and> i < int (length xs) then Inr (xs ! nat i)
      else if i < 0 \<and> - int (length xs) \<le> i then Inr (xs ! nat (int (length xs) + i))
      else Inl IndexError)"

text \<open>\<^verbatim>\<open>str.lower\<close> on ASCII text.\<close>

definition lower_char :: "char \<Rightarrow> char" where
  "lower_char c =
     (let n = (of_char c :: nat) in if 65 \<le> n \<and> n \<le> 90 then char_of (n + 32) else c)"

definition lower :: "string \<Rightarrow> string" where
  "lower s = map lower_char s"

text \<open>
  The body of the inner loop for one item, on the loop's variables \<^verbatim>\<open>skipLeadingSpace\<close>
  and \<^verbatim>\<open>confidenceList\<close> (which is the segment's \<^verbatim>\<open>segmentConfidence\<close>). A word appends a
  token; punctuation is appended to the text of \<^verbatim>\<open>segmentConfidence[-1]\<close>, which raises
  \<^verbatim>\<open>IndexError\<close> on an empty list.
\<close>

fun add_word :: "bool \<times> word_conf list \<Rightarrow> audio_item \<Rightarrow> error + (bool \<times> word_conf list)" where
  "add_word (skipLeadingSpace, confidenceList) (Word content start_ms end_ms) =
     (let wordToAdd = (if skipLeadingSpace then content else '' '' @ content)
      in Inr (False,
              confidenceList @
                [\<lparr>w_text = wordToAdd, w_confidence = 1.0,
                  w_start_time = float_div (float_of_int start_ms) 1000.0,
                  w_end_time = float_div (float_of_int end_ms) 1000.0\<rparr>]))"
| "add_word (skipLeadingSpace, confidenceList) (Punctuation content) =
     (case confidenceList of
        [] \<Rightarrow> Inl IndexError
      | _ # _ \<Rightarrow>
          Inr (skipLeadingSpace,
               butlast confidenceList @
                 [(last confidenceList)\<lparr>w_text := w_text (last confidenceList) @ content\<rparr>]))"

fun word_loop ::
    "audio_item list \<Rightarrow> bool \<times> word_conf list \<Rightarrow> int list
      \<Rightarrow> error + (bool \<times> word_conf list)" where
  "word_loop items st [] = Inr st"
| "word_loop items st (word_ptr # rest) =
     (case py_index items word_ptr of
        Inl e \<Rightarrow> Inl e
      | Inr word \<Rightarrow>
          (case add_word st word of
             Inl e \<Rightarrow> Inl e
           | Inr st' \<Rightarrow> word_loop items st' rest))"

text \<open>The tokens of one turn: the inner loop from \<^verbatim>\<open>skipLeadingSpace = True\<close> and an empty
  list.\<close>

definition turn_tokens :: "audio_item list \<Rightarrow> int list \<Rightarrow> error + word_conf list" where
  "turn_tokens items ptrs =
     (case word_loop items (True, []) ptrs of
        Inl e \<Rightarrow> Inl e
      | Inr (skipLeadingSpace, confidenceList) \<Rightarrow> Inr confidenceList)"

text \<open>The guardrail entries of turn number \<open>index\<close>: none unless \<^verbatim>\<open>guardrailCheck\<close> is
  \<^verbatim>\<open>'on'\<close>, else those of the turn's categories whose confidence reaches the limit.\<close>

definition turn_moderation :: "bda_data \<Rightarrow> cli_args \<Rightarrow> nat \<Rightarrow> error + guardrail list" where
  "turn_moderation data cli index =
     (if guardrailCheck cli = ''on''
      then (case content_moderation data of
              None \<Rightarrow> Inl KeyError
            | Some cm \<Rightarrow>
                if index < length cm
                then Inr (filter (\<lambda>guardrail. g_confidence guardrail \<ge> guardrailLimit cli)
                            (cm ! index))
                else Inl IndexError)
      else Inr [])"

text \<open>The body of the outer loop: the segment of one turn.\<close>

definition build_turn :: "bda_data \<Rightarrow> cli_args \<Rightarrow> nat \<Rightarrow> turn \<Rightarrow> error + SpeechSegment" where
  "build_turn data cli index t =
     (case turn_tokens (audio_items data) (audio_item_indices t) of
        Inl e \<Rightarrow> Inl e
      | Inr confidenceList \<Rightarrow>
          (case turn_moderation data cli index of
             Inl e \<Rightarrow> Inl e
           | Inr flags \<Rightarrow>
               Inr (new_SpeechSegment
                     \<lparr>segmentStartTime :=
                        float_div (float_of_int (start_timestamp_millis t)) 1000.0,
                      segmentEndTime :=
                        float_div (float_of_int (end_timestamp_millis t)) 1000.0,
                      segmentSpeaker := speaker_label t,
                      segmentText := turn_text t,
                      segmentLanguage := lower (language t),
                      segmentConfidence := confidenceList,
                      segmentContentModeration := flags\<rparr>)))"

fun turn_loop ::
    "bda_data \<Rightarrow> cli_args \<Rightarrow> nat \<Rightarrow> SpeechSegment list \<Rightarrow> turn list
      \<Rightarrow> error + SpeechSegment list" where
  "turn_loop data cli index speechSegmentList [] = Inr speechSegmentList"
| "turn_loop data cli index speechSegmentList (t # rest) =
     (case build_turn data cli index t of
        Inl e \<Rightarrow> Inl e
      | Inr nextSpeechSegment \<Rightarrow>
          turn_loop data cli (Suc index) (speechSegmentList @ [nextSpeechSegment]) rest)"

text \<open>The list before merging, and the function itself.\<close>

definition build_segments :: "bda_data \<Rightarrow> cli_args \<Rightarrow> error + SpeechSegment list" where
  "build_segments data cli = turn_loop data cli 0 [] (audio_segments data)"

definition create_turn_by_turn_segments ::
    "bda_data \<Rightarrow> cli_args \<Rightarrow> error + SpeechSegment list" where
  "create_turn_by_turn_segments data cli =
     (case build_segments data cli of
        Inl e \<Rightarrow> Inl e
      | Inr speechSegmentList \<Rightarrow> merge_speaker_segments speechSegmentList)"

subsection \<open>The assembler's rule in the words of the specification\<close>

text \<open>
  The specification's rule, read off the item sequence of a turn: every timed item gives
  one token with the item's timing; its text is the item's content, after a single space
  unless it is the first timed item, followed by the contents of the untimed items that
  come directly after it. An untimed item at the front has no token to attach to and is an
  error (\<open>spec_assemble\<close>); the second equation of \<open>spec_tokens\<close> only makes the function
  total and is never reached from \<open>spec_assemble\<close>.
\<close>

fun is_punctuation :: "audio_item \<Rightarrow> bool" where
  "is_punctuation (Punctuation c) = True"
| "is_punctuation (Word c s e) = False"

fun item_content :: "audio_item \<Rightarrow> string" where
  "item_content (Punctuation c) = c"
| "item_content (Word c s e) = c"

function spec_tokens :: "bool \<Rightarrow> audio_item list \<Rightarrow> word_conf list" where
  "spec_tokens first [] = []"
| "spec_tokens first (Punctuation c # rest) = spec_tokens first rest"
| "spec_tokens first (Word c s e # rest) =
     \<lparr>w_text = (if first then c else '' '' @ c)
                 @ concat (map item_content (takeWhile is_punctuation rest)),
      w_confidence = 1, w_start_time = float_div (float_of_int s) 1000,
      w_end_time = float_div (float_of_int e) 1000\<rparr>
     # spec_tokens False (dropWhile is_punctuation rest)"
  by pat_completeness auto
termination
  by (relation "measure (\<lambda>(first, items). length items)")
    (auto simp: less_Suc_eq_le length_dropWhile_le)

definition spec_assemble :: "audio_item list \<Rightarrow> error + word_conf list" where
  "spec_assemble items =
     (case items of
        Punctuation c # rest \<Rightarrow> Inl IndexError
      | _ \<Rightarrow> Inr (spec_tokens True items))"

text \<open>The text of a segment agrees with its tokens.\<close>

definition text_matches :: "SpeechSegment \<Rightarrow> bool" where
  "text_matches s = (segmentText s = concat (map w_text (segmentConfidence s)))"

text \<open>The same for a turn of the input: its \<^verbatim>\<open>text\<close> is the concatenation of the texts of
  the tokens assembled from its items.\<close>

definition turn_text_matches :: "bda_data \<Rightarrow> turn \<Rightarrow> bool" where
  "turn_text_matches data t =
     (case turn_tokens (audio_items data) (audio_item_indices t) of
        Inl e \<Rightarrow> False
      | Inr toks \<Rightarrow> turn_text t = concat (map w_text toks))"

text \<open>All tokens assembled from the input, turn after turn.\<close>

definition input_tokens :: "bda_data \<Rightarrow> word_conf list" where
  "input_tokens data =
     concat (map (\<lambda>t. case turn_tokens (audio_items data) (audio_item_indices t) of
                         Inl e \<Rightarrow> []
                       | Inr toks \<Rightarrow> toks)
                 (audio_segments data))"

text \<open>\<^verbatim>\<open>" ".join\<close>.\<close>

fun join_space :: "string list \<Rightarrow> string" where
  "join_space [] = ''''"
| "join_space [x] = x"
| "join_space (x # y # r) = x @ '' '' @ join_space (y # r)"

text \<open>\<open>same_token a b\<close>: the token \<open>b\<close> of the output is the token \<open>a\<close> of the input, as it is
  or with the one leading space the merger adds.\<close>

definition same_token :: "word_conf \<Rightarrow> word_conf \<Rightarrow> bool" where
  "same_token a b = (b = a \<or> b = a\<lparr>w_text := '' '' @ w_text a\<rparr>)"

section \<open>The sentiment classifier\<close>

definition MIN_SENTIMENT_LENGTH :: nat where
  "MIN_SENTIMENT_LENGTH = 16"

definition MIN_SENTIMENT_NEGATIVE :: real where
  "MIN_SENTIMENT_NEGATIVE = float_literal 0.4"

definition MIN_SENTIMENT_POSITIVE :: real where
  "MIN_SENTIMENT_POSITIVE = float_literal 0.6"

definition SENTIMENT_LANGUAGES :: "string list" where
  "SENTIMENT_LANGUAGES =
     [''en'', ''es'', ''fr'', ''de'', ''it'', ''pt'', ''ar'', ''hi'', ''ja'', ''ko'', ''zh-TW'', ''zh'']"

text \<open>
  \<^verbatim>\<open>client.detect_sentiment(Text=..., LanguageCode=...)\<close> is a parameter of the model: a
  function from the text and the language code to the \<^verbatim>\<open>SentimentScore\<close> of the response, or
  to the exception the call raised.
\<close>

text \<open>The sentiment fields as the constructor leaves them: no score, no mark.\<close>

definition unscored :: "SpeechSegment \<Rightarrow> bool" where
  "unscored s =
     (segmentSentimentScore s = - 1 \<and> \<not> segmentIsPositive s \<and> \<not> segmentIsNegative s)"

type_synonym comprehend = "string \<Rightarrow> string \<Rightarrow> error + sentiment_score"

text \<open>What the loop body does with a response: the threshold tests, negative first, then
  the three assignments that keep the response.\<close>

definition store_sentiment :: "SpeechSegment \<Rightarrow> sentiment_score \<Rightarrow> SpeechSegment" where
  "store_sentiment nextSegment response =
     (let positiveBase = Positive response;
          negativeBase = Negative response;
          labelled =
            (if negativeBase \<ge> MIN_SENTIMENT_NEGATIVE
             then nextSegment\<lparr>segmentIsNegative := True, segmentSentimentScore := negativeBase\<rparr>
             else if positiveBase \<ge> MIN_SENTIMENT_POSITIVE
             then nextSegment\<lparr>segmentIsPositive := True, segmentSentimentScore := positiveBase\<rparr>
             else nextSegment)
      in labelled\<lparr>segmentAllSentiments := Some response,
                  segmentPositive := positiveBase,
                  segmentNegative := negativeBase\<rparr>)"

definition sentiment_segment :: "comprehend \<Rightarrow> SpeechSegment \<Rightarrow> error + SpeechSegment" where
  "sentiment_segment client nextSegment =
     (if segmentLanguage nextSegment \<in> set SENTIMENT_LANGUAGES
      then if length (segmentText nextSegment) \<ge> MIN_SENTIMENT_LENGTH
           then (case client (segmentText nextSegment) (segmentLanguage nextSegment) of
                   Inl e \<Rightarrow> Inl e
                 | Inr response \<Rightarrow> Inr (store_sentiment nextSegment response))
           else Inr nextSegment
      else Inr nextSegment)"

text \<open>The loop over the list; the segments are changed in place, so the result is the list
  with each segment as the loop leaves it.\<close>

fun generate_sentiment :: "comprehend \<Rightarrow> SpeechSegment list \<Rightarrow> error + SpeechSegment list" where
  "generate_sentiment client [] = Inr []"
| "generate_sentiment client (nextSegment # rest) =
     (case sentiment_segment client nextSegment of
        Inl e \<Rightarrow> Inl e
      | Inr s \<Rightarrow>
          (case generate_sentiment client rest of
             Inl e \<Rightarrow> Inl e
           | Inr rest' \<Rightarrow> Inr (s # rest')))"

section \<open>The row loop of the renderer\<close>

text \<open>
  \<^verbatim>\<open>write_transcribe_text\<close> writes one table row per segment. Of a row the model keeps what
  the engine decides: the segment and the numbers of the topic markers put in front of its
  text. Fonts, colours, images and the guardrail and sentiment cells are left out.

  \<^verbatim>\<open>timed_topics\<close> is the list built by \<^verbatim>\<open>write\<close>: one dictionary with the keys
  \<^verbatim>\<open>start_time\<close> and \<^verbatim>\<open>index\<close> per topic. \<^verbatim>\<open>topics_unmarked\<close> is the list of their
  \<^verbatim>\<open>start_time\<close> values.
\<close>

record topic =
  t_start_time :: int
  t_index :: int

record row =
  row_markers :: "int list"
  row_segment :: SpeechSegment

text \<open>The values that the operator \<^verbatim>\<open>in\<close> compares in this function: integers and topic
  dictionaries. Python's \<^verbatim>\<open>==\<close> between an integer and a dictionary is false, as is the
  equality of the two constructors.\<close>

datatype pyval = PyInt int | PyDict topic

definition py_in :: "pyval \<Rightarrow> pyval list \<Rightarrow> bool" where
  "py_in x xs = (x \<in> set xs)"

text \<open>\<^verbatim>\<open>int(x)\<close> of a float: truncation towards zero.\<close>

definition py_int :: "real \<Rightarrow> int" where
  "py_int x = (if 0 \<le> x then \<lfloor>x\<rfloor> else \<lceil>x\<rceil>)"

text \<open>\<^verbatim>\<open>list.index\<close> (called only for an element of the list) and \<^verbatim>\<open>list.pop\<close> at an
  index inside the list.\<close>

fun index_of :: "'a list \<Rightarrow> 'a \<Rightarrow> nat" where
  "index_of [] x = 0"
| "index_of (y # ys) x = (if y = x then 0 else Suc (index_of ys x))"

definition pop :: "'a list \<Rightarrow> nat \<Rightarrow> 'a list" where
  "pop xs i = take i xs @ drop (Suc i) xs"

text \<open>
  The \<^verbatim>\<open>while\<close> loop that marks the topics starting with this row. Each round removes one
  entry of \<^verbatim>\<open>topics_unmarked\<close>, so the loop ends. \<^verbatim>\<open>timed_topics[idx]\<close> raises
  \<^verbatim>\<open>IndexError\<close> if the two lists have come apart.
\<close>

function mark_topics ::
    "int \<Rightarrow> topic list \<Rightarrow> int list \<Rightarrow> int list \<Rightarrow> error + (topic list \<times> int list \<times> int list)" where
  "mark_topics start_in_millis timed_topics topics_unmarked markers =
     (if start_in_millis \<in> set topics_unmarked
      then (let idx = index_of topics_unmarked start_in_millis
            in if idx < length timed_topics
               then mark_topics start_in_millis (pop timed_topics idx) (pop topics_unmarked idx)
                      (markers @ [t_index (timed_topics ! idx) + 1])
               else Inl IndexError)
      else Inr (timed_topics, topics_unmarked, markers))"
  by pat_completeness auto

lemma length_pop_index_of:
  "x \<in> set xs \<Longrightarrow> length (pop xs (index_of xs x)) < length xs"
  by (induction xs) (auto simp: pop_def)

termination mark_topics
  by (relation "measure (\<lambda>(s, tt, tu, ms). length tu)") (auto simp: length_pop_index_of)

text \<open>The \<^verbatim>\<open>for\<close> loop. Its last statement tests \<^verbatim>\<open>end_in_millis in timed_topics\<close>, an
  integer against the list of topic dictionaries, and leaves the loop when the test
  holds.\<close>

fun write_rows ::
    "SpeechSegment list \<Rightarrow> topic list \<Rightarrow> int list \<Rightarrow> row list \<Rightarrow> error + row list" where
  "write_rows [] timed_topics topics_unmarked rows = Inr rows"
| "write_rows (segment # rest) timed_topics topics_unmarked rows =
     (let start_in_millis = py_int (float_mul (segmentStartTime segment) 1000.0);
          end_in_millis = py_int (float_mul (segmentEndTime segment) 1000.0)
      in case mark_topics start_in_millis timed_topics topics_unmarked [] of
           Inl e \<Rightarrow> Inl e
         | Inr (timed_topics', topics_unmarked', markers) \<Rightarrow>
             (let rows' = rows @ [\<lparr>row_markers = markers, row_segment = segment\<rparr>]
              in if py_in (PyInt end_in_millis) (map PyDict timed_topics')
                 then Inr rows'
                 else write_rows rest timed_topics' topics_unmarked' rows'))"

definition write_transcribe_text :: "SpeechSegment list \<Rightarrow> topic list \<Rightarrow> error + row list" where
  "write_transcribe_text speech_segments timed_topics =
     write_rows speech_segments timed_topics
       (if timed_topics \<noteq> [] then map t_start_time timed_topics else []) []"

section \<open>Concrete inputs\<close>

text \<open>A token and a segment to build concrete inputs with.\<close>

definition tok :: "string \<Rightarrow> real \<Rightarrow> real \<Rightarrow> word_conf" where
  "tok t s e = \<lparr>w_text = t, w_confidence = 1, w_start_time = s, w_end_time = e\<rparr>"

definition seg ::
    "string \<Rightarrow> string \<Rightarrow> real \<Rightarrow> real \<Rightarrow> string \<Rightarrow> word_conf list \<Rightarrow> guardrail list
      \<Rightarrow> SpeechSegment" where
  "seg spk lang s e txt ws flags =
     new_SpeechSegment\<lparr>segmentStartTime := s, segmentEndTime := e, segmentSpeaker := spk,
                       segmentText := txt, segmentLanguage := lang, segmentConfidence := ws,
                       segmentContentModeration := flags\<rparr>"

text \<open>Two consecutive turns of one speaker in one language: \<open>turn_A\<close> ends at 10.0 s; the
  next turn starts at 10.5 s (\<open>turn_B_near\<close>) or at 13.0 s (\<open>turn_B_far\<close>).\<close>

definition turn_A :: SpeechSegment where
  "turn_A = seg ''spk_0'' ''en'' 0 10 ''hello there'' [tok ''hello'' 0 1, tok '' there'' 1 10] []"

definition turn_B_near :: SpeechSegment where
  "turn_B_near =
     seg ''spk_0'' ''en'' 10.5 12 ''how are you''
       [tok ''how'' 10.5 11, tok '' are'' 11 11.5, tok '' you'' 11.5 12] []"

definition turn_B_far :: SpeechSegment where
  "turn_B_far =
     seg ''spk_0'' ''en'' 13 14.5 ''how are you''
       [tok ''how'' 13 13.5, tok '' are'' 13.5 14, tok '' you'' 14 14.5] []"

definition merged_AB :: SpeechSegment where
  "merged_AB =
     seg ''spk_0'' ''en'' 0 12 ''hello there how are you''
       [tok ''hello'' 0 1, tok '' there'' 1 10,
        tok '' how'' 10.5 11, tok '' are'' 11 11.5, tok '' you'' 11.5 12] []"

text \<open>A turn with a moderation flag, the unflagged turn after it, and the two merged.\<close>

definition flag_profanity :: guardrail where
  "flag_profanity = \<lparr>g_category = ''profanity'', g_confidence = 0.75\<rparr>"

definition turn_F :: SpeechSegment where
  "turn_F =
     seg ''spk_0'' ''en'' 10.5 12 ''bad words'' [tok ''bad'' 10.5 11, tok '' words'' 11 12]
       [flag_profanity]"

definition turn_C :: SpeechSegment where
  "turn_C = seg ''spk_0'' ''en'' 12.5 13 ''sorry'' [tok ''sorry'' 12.5 13] []"

definition merged_FC :: SpeechSegment where
  "merged_FC =
     seg ''spk_0'' ''en'' 10.5 13 ''bad words sorry''
       [tok ''bad'' 10.5 11, tok '' words'' 11 12, tok '' sorry'' 12.5 13] [flag_profanity]"

text \<open>A turn without items, as a turn with an empty \<^verbatim>\<open>audio_item_indices\<close> gives.\<close>

definition turn_E :: SpeechSegment where
  "turn_E = seg ''spk_0'' ''en'' 10.5 12 '''' [] []"

text \<open>Inputs of the turn builder.\<close>

definition cli_off :: cli_args where
  "cli_off = \<lparr>guardrailCheck = ''off'', guardrailLimit = 0.25, sentiment = ''off''\<rparr>"

definition items_hello :: "audio_item list" where
  "items_hello = [Word ''Hello'' 0 500, Punctuation ''.'']"

definition data_punct_first :: bda_data where
  "data_punct_first =
     \<lparr>audio_segments =
        [\<lparr>start_timestamp_millis = 0, end_timestamp_millis = 500, speaker_label = ''spk_0'',
          turn_text = ''.Hello'', language = ''en'', audio_item_indices = [0, 1]\<rparr>],
      audio_items = [Punctuation ''.'', Word ''Hello'' 0 500],
      content_moderation = None\<rparr>"

definition data_mismatch :: bda_data where
  "data_mismatch =
     \<lparr>audio_segments =
        [\<lparr>start_timestamp_millis = 0, end_timestamp_millis = 500, speaker_label = ''spk_0'',
          turn_text = ''Hello there'', language = ''en'', audio_item_indices = [0]\<rparr>],
      audio_items = [Word ''Hi'' 0 500],
      content_moderation = None\<rparr>"

definition turn_1 :: turn where
  "turn_1 =
     \<lparr>start_timestamp_millis = 0, end_timestamp_millis = 500, speaker_label = ''spk_0'',
      turn_text = ''Hello.'', language = ''en'', audio_item_indices = [0, 1]\<rparr>"

definition turn_2 :: turn where
  "turn_2 =
     \<lparr>start_timestamp_millis = 1000, end_timestamp_millis = 2500, speaker_label = ''spk_0'',
      turn_text = ''How are you?'', language = ''en'', audio_item_indices = [2, 3, 4, 5]\<rparr>"

definition data_ok :: bda_data where
  "data_ok =
     \<lparr>audio_segments = [turn_1, turn_2],
      audio_items =
        [Word ''Hello'' 0 500, Punctuation ''.'', Word ''How'' 1000 1500,
         Word ''are'' 1500 2000, Word ''you'' 2000 2500, Punctuation ''?''],
      content_moderation = None\<rparr>"

definition merged_12 :: SpeechSegment where
  "merged_12 =
     seg ''spk_0'' ''en'' 0 2.5 ''Hello. How are you?''
       [tok ''Hello.'' 0 0.5, tok '' How'' 1 1.5, tok '' are'' 1.5 2, tok '' you?'' 2 2.5] []"

text \<open>Two turns whose times are 300 ms apart from a gap of two seconds on paper: the first
  ends at 300 ms, the second starts at 2300 ms.\<close>

definition data_gap_2000 :: bda_data where
  "data_gap_2000 =
     \<lparr>audio_segments =
        [\<lparr>start_timestamp_millis = 0, end_timestamp_millis = 300, speaker_label = ''spk_0'',
          turn_text = ''yes'', language = ''en'', audio_item_indices = [0]\<rparr>,
         \<lparr>start_timestamp_millis = 2300, end_timestamp_millis = 3000, speaker_label = ''spk_0'',
          turn_text = ''no'', language = ''en'', audio_item_indices = [1]\<rparr>],
      audio_items = [Word ''yes'' 0 300, Word ''no'' 2300 3000],
      content_moderation = None\<rparr>"

definition merged_gap_2000 :: SpeechSegment where
  "merged_gap_2000 =
     seg ''spk_0'' ''en'' 0 3 ''yes no''
       [tok ''yes'' 0 (float_div (float_of_int 300) 1000),
        tok '' no'' (float_div (float_of_int 2300) 1000) 3] []"

text \<open>Inputs of the classifier: a job with one turn long enough to be scored, the segment
  built from it, and three responses.\<close>

definition data_long :: bda_data where
  "data_long =
     \<lparr>audio_segments =
        [\<lparr>start_timestamp_millis = 0, end_timestamp_millis = 2500, speaker_label = ''spk_0'',
          turn_text = ''this is a fine day'', language = ''EN'',
          audio_item_indices = [0, 1, 2, 3, 4]\<rparr>],
      audio_items =
        [Word ''this'' 0 500, Word ''is'' 500 1000, Word ''a'' 1000 1500,
         Word ''fine'' 1500 2000, Word ''day'' 2000 2500],
      content_moderation = None\<rparr>"

definition turn_long :: SpeechSegment where
  "turn_long =
     seg ''spk_0'' ''en'' 0 2.5 ''this is a fine day''
       [tok ''this'' 0 0.5, tok '' is'' 0.5 1, tok '' a'' 1 1.5, tok '' fine'' 1.5 2,
        tok '' day'' 2 2.5] []"

definition score_positive :: sentiment_score where
  "score_positive =
     \<lparr>Positive = float_literal 0.65, Negative = float_literal 0.1,
      Neutral = float_literal 0.2, Mixed = float_literal 0.05\<rparr>"

definition score_neutral :: sentiment_score where
  "score_neutral =
     \<lparr>Positive = float_literal 0.3, Negative = float_literal 0.1,
      Neutral = float_literal 0.5, Mixed = float_literal 0.1\<rparr>"

definition score_both :: sentiment_score where
  "score_both =
     \<lparr>Positive = float_literal 0.7, Negative = float_literal 0.5, Neutral = 0, Mixed = 0\<rparr>"

text \<open>Inputs of the renderer: a turn that ends at 1.0 s, the next one starting there, and a
  topic that starts at 1000 ms.\<close>

definition turn_R1 :: SpeechSegment where
  "turn_R1 = seg ''spk_0'' ''en'' 0 1 ''hello'' [tok ''hello'' 0 1] []"

definition turn_R2 :: SpeechSegment where
  "turn_R2 = seg ''spk_1'' ''en'' 1 2 ''goodbye'' [tok ''goodbye'' 1 2] []"

definition topic_at_1000 :: topic where
  "topic_at_1000 = \<lparr>t_start_time = 1000, t_index = 0\<rparr>"

section \<open>Properties of the segment merger\<close>

subsection \<open>The loop invariant and the fold of the specification\<close>

lemmas float_eval =
  round_double_def pow2_def exponent_def round_even_def float_of_int_def float_sub_def
  float_div_def float_mul_def float_literal_def Let_def

text \<open>The rounding on some decimal numbers: one tenth is the double
  \<^verbatim>\<open>0x3FB999999999999A\<close>, and a number with a short binary expansion is not changed.\<close>

lemma round_double_values:
  "float_literal 0.1 = 3602879701896397 / 2 ^ 55"
  "float_literal 0.5 = 0.5"
  "float_literal 2.0 = 2"
  "float_div (float_of_int 2300) 1000 = 5179139571476070 / 2 ^ 51"
  "float_div (float_of_int 300) 1000 = 5404319552844595 / 2 ^ 54"
  by (simp_all add: float_eval)

lemmas merge_eval =
  merge_speaker_segments_def merge_init_def merge_step_def lastSegment_def start_new_def
  copy_to_last_def seg_def tok_def new_SpeechSegment_def START_NEW_SEGMENT_DELAY_def
  float_eval

lemma merge_inv_init: "merge_inv merge_init"
  by (simp add: merge_inv_def merge_init_def lastSegment_def)

lemma merge_inv_start_new: "merge_inv (start_new st s)"
  by (simp add: merge_inv_def start_new_def lastSegment_def)

lemma merge_step_char:
  assumes "merge_inv st"
  shows "merge_step st s =
     (if outputSegmentList st = []
      then (if segmentSpeaker s = '''' then Inl AttributeError else Inr (start_new st s))
      else if continues (last (outputSegmentList st)) s
      then (case segmentConfidence s of
              [] \<Rightarrow> Inl IndexError
            | w # ws \<Rightarrow>
                Inr (st\<lparr>outputSegmentList :=
                          butlast (outputSegmentList st)
                            @ [copy_to_last (last (outputSegmentList st)) s w ws]\<rparr>))
      else Inr (start_new st s))"
proof (cases "outputSegmentList st = []")
  case True
  with assms have "lastSegment st = None" "lastSpeaker st = ''''"
    by (simp_all add: merge_inv_def lastSegment_def)
  with True show ?thesis
    by (simp add: merge_step_def)
next
  case False
  with assms have l: "lastSegment st = Some (last (outputSegmentList st))"
    and sp: "lastSpeaker st = segmentSpeaker (last (outputSegmentList st))"
    and la: "lastLanguage st = segmentLanguage (last (outputSegmentList st))"
    by (simp_all add: merge_inv_def lastSegment_def)
  have c: "continues (last (outputSegmentList st)) s \<longleftrightarrow>
     \<not> (segmentSpeaker s \<noteq> lastSpeaker st
        \<or> float_sub (segmentStartTime s) (segmentEndTime (last (outputSegmentList st)))
             \<ge> START_NEW_SEGMENT_DELAY
        \<or> segmentLanguage s \<noteq> lastLanguage st
        \<or> segmentContentModeration s \<noteq> [])"
    unfolding continues_def GAP_THRESHOLD_def START_NEW_SEGMENT_DELAY_def sp la
    by (auto simp: not_le)
  show ?thesis
  proof (cases "continues (last (outputSegmentList st)) s")
    case True
    with c False l show ?thesis by (simp add: merge_step_def)
  next
    case nc: False
    with c False l show ?thesis by (auto simp: merge_step_def)
  qed
qed

lemma merge_step_inv:
  assumes "merge_inv st" "merge_step st s = Inr st'"
  shows "merge_inv st'"
proof -
  have "merge_inv (st\<lparr>outputSegmentList :=
          butlast (outputSegmentList st) @ [copy_to_last (last (outputSegmentList st)) s w ws]\<rparr>)"
    if "outputSegmentList st \<noteq> []" for w ws
    using assms(1) that by (simp add: merge_inv_def lastSegment_def copy_to_last_def)
  with assms(2) show ?thesis
    unfolding merge_step_char [OF assms(1)]
    by (auto simp: merge_inv_start_new split: if_splits list.splits)
qed

lemma copy_to_last_absorb:
  "copy_to_last l s w ws = absorb l (s\<lparr>segmentConfidence := w # ws\<rparr>)"
  by (simp add: copy_to_last_def absorb_def)

lemma merge_step_spec:
  assumes "merge_inv st" "merge_step st s = Inr st'"
  shows "outputSegmentList st' = spec_step (outputSegmentList st) s"
proof (cases "outputSegmentList st \<noteq> [] \<and> continues (last (outputSegmentList st)) s")
  case True
  with assms(2) have "\<exists>w ws. segmentConfidence s = w # ws
      \<and> st' = st\<lparr>outputSegmentList := butlast (outputSegmentList st)
                 @ [copy_to_last (last (outputSegmentList st)) s w ws]\<rparr>"
    unfolding merge_step_char [OF assms(1)]
    by (cases "segmentConfidence s") auto
  then obtain w ws where toks: "segmentConfidence s = w # ws"
    and st': "st' = st\<lparr>outputSegmentList := butlast (outputSegmentList st)
                 @ [copy_to_last (last (outputSegmentList st)) s w ws]\<rparr>"
    by blast
  from toks have "s\<lparr>segmentConfidence := w # ws\<rparr> = s" by simp
  with True st' show ?thesis
    by (simp add: spec_step_def copy_to_last_absorb)
next
  case False
  with assms(2) have "st' = start_new st s"
    unfolding merge_step_char [OF assms(1)]
    by (simp split: if_splits)
  with False show ?thesis
    by (auto simp: spec_step_def start_new_def)
qed

lemma merge_loop_inv:
  "merge_inv st \<Longrightarrow> merge_loop st xs = Inr st' \<Longrightarrow> merge_inv st'"
proof (induction xs arbitrary: st)
  case Nil
  then show ?case by simp
next
  case (Cons x xs)
  from Cons.prems(2) obtain st1 where s1: "merge_step st x = Inr st1"
    and l1: "merge_loop st1 xs = Inr st'"
    by (cases "merge_step st x") simp_all
  from Cons.IH [OF merge_step_inv [OF Cons.prems(1) s1] l1] show ?case .
qed

lemma merge_loop_spec:
  "merge_inv st \<Longrightarrow> merge_loop st xs = Inr st'
    \<Longrightarrow> outputSegmentList st' = foldl spec_step (outputSegmentList st) xs"
proof (induction xs arbitrary: st)
  case Nil
  then show ?case by simp
next
  case (Cons x xs)
  from Cons.prems(2) obtain st1 where s1: "merge_step st x = Inr st1"
    and l1: "merge_loop st1 xs = Inr st'"
    by (cases "merge_step st x") simp_all
  from Cons.IH [OF merge_step_inv [OF Cons.prems(1) s1] l1]
    merge_step_spec [OF Cons.prems(1) s1]
  show ?case by simp
qed

lemma merge_loop_total:
  "merge_inv st \<Longrightarrow> outputSegmentList st \<noteq> [] \<Longrightarrow> \<forall>s\<in>set xs. segmentConfidence s \<noteq> []
    \<Longrightarrow> \<exists>st'. merge_loop st xs = Inr st'"
proof (induction xs arbitrary: st)
  case Nil
  then show ?case by simp
next
  case (Cons x xs)
  from Cons.prems(3) obtain w ws where toks: "segmentConfidence x = w # ws"
    by (cases "segmentConfidence x") auto
  have "\<exists>st1. merge_step st x = Inr st1 \<and> outputSegmentList st1 \<noteq> []"
    unfolding merge_step_char [OF Cons.prems(1)] using Cons.prems(2) toks
    by (simp add: start_new_def)
  then obtain st1 where s1: "merge_step st x = Inr st1"
    and ne: "outputSegmentList st1 \<noteq> []" by blast
  from Cons.IH [OF merge_step_inv [OF Cons.prems(1) s1] ne] Cons.prems(3) s1
  show ?case by simp
qed

lemma separated_snoc:
  "separated (xs @ [y]) = (separated xs \<and> (xs \<noteq> [] \<longrightarrow> \<not> continues (last xs) y))"
  by (induction xs rule: separated.induct) auto

lemma separated_mid:
  "separated (xs @ y # ys) \<Longrightarrow> xs \<noteq> [] \<Longrightarrow> \<not> continues (last xs) y"
  by (induction xs rule: separated.induct) auto

lemma continues_absorb_right: "continues p (absorb l s) = continues p l"
  by (simp add: continues_def absorb_def)

lemma separated_spec_step:
  assumes "separated out"
  shows "separated (spec_step out s)"
proof (cases "out \<noteq> [] \<and> continues (last out) s")
  case True
  then obtain ys l where out: "out = ys @ [l]"
    by (metis append_butlast_last_id)
  with assms True show ?thesis
    by (simp add: spec_step_def separated_snoc continues_absorb_right)
next
  case False
  with assms show ?thesis
    by (auto simp: spec_step_def separated_snoc)
qed

lemma separated_foldl:
  "separated out \<Longrightarrow> separated (foldl spec_step out xs)"
  by (induction xs arbitrary: out) (simp_all add: separated_spec_step)

lemma spec_step_hd:
  assumes "out \<noteq> []"
  shows "spec_step out s \<noteq> [] \<and> segmentSpeaker (hd (spec_step out s)) = segmentSpeaker (hd out)"
proof (cases out rule: rev_cases)
  case Nil
  with assms show ?thesis by simp
next
  case (snoc ys l)
  then show ?thesis
    by (cases ys) (simp_all add: spec_step_def absorb_def)
qed

lemma foldl_spec_step_hd:
  "out \<noteq> [] \<Longrightarrow> foldl spec_step out xs \<noteq> []
     \<and> segmentSpeaker (hd (foldl spec_step out xs)) = segmentSpeaker (hd out)"
proof (induction xs arbitrary: out)
  case Nil
  then show ?case by simp
next
  case (Cons x xs)
  from spec_step_hd [OF Cons.prems, of x] Cons.IH [of "spec_step out x"]
  show ?case by simp
qed

lemma merge_loop_keeps:
  "merge_inv st \<Longrightarrow> separated (outputSegmentList st @ ys)
    \<Longrightarrow> (outputSegmentList st = [] \<longrightarrow> ys = [] \<or> segmentSpeaker (hd ys) \<noteq> '''')
    \<Longrightarrow> \<exists>st'. merge_loop st ys = Inr st' \<and> outputSegmentList st' = outputSegmentList st @ ys"
proof (induction ys arbitrary: st)
  case Nil
  then show ?case by simp
next
  case (Cons y ys)
  have step: "merge_step st y = Inr (start_new st y)"
  proof (cases "outputSegmentList st = []")
    case True
    with Cons.prems(3) show ?thesis
      by (simp add: merge_step_char [OF Cons.prems(1)])
  next
    case False
    with separated_mid [OF Cons.prems(2)] show ?thesis
      by (simp add: merge_step_char [OF Cons.prems(1)])
  qed
  have "\<exists>st'. merge_loop (start_new st y) ys = Inr st'
      \<and> outputSegmentList st' = outputSegmentList (start_new st y) @ ys"
    using Cons.prems(2)
    by (intro Cons.IH merge_inv_start_new) (simp_all add: start_new_def)
  with step show ?case by (simp add: start_new_def)
qed

lemma merge_output_shape:
  assumes "merge_speaker_segments xs = Inr L"
  shows "separated L \<and> (L \<noteq> [] \<longrightarrow> segmentSpeaker (hd L) \<noteq> '''')"
proof (cases xs)
  case Nil
  with assms show ?thesis by (auto simp: merge_speaker_segments_def merge_init_def)
next
  case (Cons x rest)
  from assms obtain st where st: "merge_loop merge_init xs = Inr st" and L: "L = outputSegmentList st"
    by (cases "merge_loop merge_init xs") (simp_all add: merge_speaker_segments_def)
  from st Cons obtain st1 where s1: "merge_step merge_init x = Inr st1"
    and l1: "merge_loop st1 rest = Inr st"
    by (cases "merge_step merge_init x") simp_all
  have e: "outputSegmentList merge_init = []"
    by (simp add: merge_init_def)
  from s1 have x: "segmentSpeaker x \<noteq> ''''" and st1: "st1 = start_new merge_init x"
    unfolding merge_step_char [OF merge_inv_init]
    by (simp_all add: e split: if_splits)
  have o1: "outputSegmentList st1 = [x]"
    by (simp add: st1 start_new_def merge_init_def)
  have inv1: "merge_inv st1"
    by (simp add: st1 merge_inv_start_new)
  from merge_loop_spec [OF inv1 l1] have Lf: "L = foldl spec_step [x] rest"
    by (simp add: L o1)
  from separated_foldl [of "[x]" rest] foldl_spec_step_hd [of "[x]" rest] x
  show ?thesis by (simp add: Lf)
qed

lemma merge_loop_append:
  "merge_loop st (xs @ ys) =
     (case merge_loop st xs of Inl e \<Rightarrow> Inl e | Inr st1 \<Rightarrow> merge_loop st1 ys)"
  by (induction xs arbitrary: st) (simp_all split: sum.splits)

lemma begins_refl: "begins a a"
  by (simp add: begins_def)

lemma begins_trans: "begins a b \<Longrightarrow> begins b c \<Longrightarrow> begins a c"
  by (auto simp: begins_def)

lemma begins_absorb: "begins l (absorb l s)"
  by (simp add: begins_def absorb_def)

lemma foldl_spec_step_grows:
  "out \<noteq> [] \<Longrightarrow> \<exists>l' more. foldl spec_step out xs = butlast out @ l' # more
      \<and> begins (last out) l'"
proof (induction xs arbitrary: out)
  case Nil
  then have "foldl spec_step out [] = butlast out @ last out # []"
    by simp
  with begins_refl show ?case by blast
next
  case (Cons x xs)
  show ?case
  proof (cases "continues (last out) x")
    case True
    with Cons.prems have s: "spec_step out x = butlast out @ [absorb (last out) x]"
      by (simp add: spec_step_def)
    from Cons.IH [of "butlast out @ [absorb (last out) x]"]
    obtain l' more where "foldl spec_step (spec_step out x) xs = butlast out @ l' # more"
      and "begins (absorb (last out) x) l'"
      unfolding s by auto
    with begins_trans [OF begins_absorb] show ?thesis
      by auto
  next
    case False
    then have s: "spec_step out x = out @ [x]"
      by (simp add: spec_step_def)
    from Cons.IH [of "out @ [x]"]
    obtain l' more where "foldl spec_step (spec_step out x) xs = out @ l' # more"
      unfolding s by auto
    with Cons.prems have "foldl spec_step (out) (x # xs) = butlast out @ last out # l' # more"
      by simp
    then show ?thesis using begins_refl by blast
  qed
qed

subsection \<open>The first segment\<close>

text \<open>
  C6. The claim: for every non-empty input the first segment starts the output list, whatever
  its speaker label, the empty string included. The loop forces the first append by
  starting \<^verbatim>\<open>lastSpeaker\<close> at the empty string; a first segment whose own label is the
  empty string passes the speaker test, and the code then reads \<^verbatim>\<open>segmentEndTime\<close> of
  \<^verbatim>\<open>None\<close>. Evaluated on a one-segment list with an empty speaker label the merger raises
  \<^verbatim>\<open>AttributeError\<close> and returns no list.
\<close>

theorem merge_first_empty_speaker_raises:
  "merge_speaker_segments [seg '''' ''en'' 0 1 ''hello'' [tok ''hello'' 0 1] []]
     = Inl AttributeError"
  by (simp add: merge_eval)

subsection \<open>A continuing segment without tokens\<close>

text \<open>
  C10. When the segments before \<open>s\<close> merge to a non-empty list \<open>out\<close>, and \<open>s\<close> meets the four
  continuation conditions against the last segment of \<open>out\<close> but has no tokens, the merger
  raises \<^verbatim>\<open>IndexError\<close> at \<^verbatim>\<open>segment.segmentConfidence[0]\<close>, whatever follows \<open>s\<close>. So the
  merger returns a list only if every segment it absorbs has a token.
\<close>

theorem absorbed_without_tokens_raises:
  assumes "merge_speaker_segments pre = Inr out" and "out \<noteq> []"
    and "continues (last out) s" and "segmentConfidence s = []"
  shows "merge_speaker_segments (pre @ s # post) = Inl IndexError"
proof -
  from assms(1) obtain st1 where l1: "merge_loop merge_init pre = Inr st1"
    and out: "out = outputSegmentList st1"
    by (cases "merge_loop merge_init pre") (simp_all add: merge_speaker_segments_def)
  have inv1: "merge_inv st1"
    by (rule merge_loop_inv [OF merge_inv_init l1])
  from assms(2-4) have "merge_step st1 s = Inl IndexError"
    by (simp add: merge_step_char [OF inv1] out)
  with l1 show ?thesis
    by (simp add: merge_speaker_segments_def merge_loop_append)
qed

theorem absorbed_without_tokens_raises_witness:
  "merge_speaker_segments [turn_A] = Inr [turn_A] \<and> [turn_A] \<noteq> []
   \<and> continues (last [turn_A]) turn_E \<and> segmentConfidence turn_E = []
   \<and> merge_speaker_segments ([turn_A] @ turn_E # []) = Inl IndexError"
proof -
  have a: "merge_speaker_segments [turn_A] = Inr [turn_A]"
    by (simp add: merge_eval turn_A_def)
  have b: "[turn_A] \<noteq> []"
    by simp
  have c: "continues (last [turn_A]) turn_E"
    by (simp add: continues_def GAP_THRESHOLD_def turn_A_def turn_E_def seg_def
        new_SpeechSegment_def float_eval)
  have d: "segmentConfidence turn_E = []"
    by (simp add: turn_E_def seg_def)
  from absorbed_without_tokens_raises [OF a b c d, of "[]"] a b c d show ?thesis
    by simp
qed

subsection \<open>The merge rule\<close>

text \<open>
  C3 as stated says, for every segment list, that a segment is absorbed exactly when the
  four conditions hold, the gap being less than 2.0 seconds, and otherwise starts a new
  entry. Two inputs show that this needs two qualifications. First, \<open>turn_E\<close> meets
  the four conditions after \<open>turn_A\<close> and has no token: it is neither absorbed nor made
  a new entry, since the merger raises \<^verbatim>\<open>IndexError\<close>. Second, the gap the code tests is the
  difference of two doubles, rounded again: a turn that ends at 300 ms and the next one
  that starts at 2300 ms are two seconds apart, which is not less than 2.0, yet the
  computed difference is 1.9999999999999998 and the two turns are merged.
\<close>

theorem merge_rule_counterexample:
  "continues turn_A turn_E
   \<and> merge_speaker_segments [turn_A, turn_E] = Inl IndexError
   \<and> create_turn_by_turn_segments data_gap_2000 cli_off = Inr [merged_gap_2000]
   \<and> float_sub (float_div (float_of_int 2300) 1000) (float_div (float_of_int 300) 1000)
       = 2 - 1 / 2 ^ 52"
proof -
  have a: "continues turn_A turn_E"
    by (simp add: continues_def GAP_THRESHOLD_def turn_A_def turn_E_def seg_def
        new_SpeechSegment_def float_eval)
  have b: "merge_speaker_segments [turn_A, turn_E] = Inl IndexError"
    by (simp add: merge_eval turn_A_def turn_E_def)
  have c: "create_turn_by_turn_segments data_gap_2000 cli_off = Inr [merged_gap_2000]"
    by (simp add: create_turn_by_turn_segments_def build_segments_def build_turn_def
        turn_tokens_def turn_moderation_def py_index_def lower_def lower_char_def cli_off_def
        data_gap_2000_def merged_gap_2000_def merge_eval)
  have d: "float_sub (float_div (float_of_int 2300) 1000) (float_div (float_of_int 300) 1000)
       = 2 - 1 / 2 ^ 52"
    by (simp add: float_eval)
  from a b c d show ?thesis
    by simp
qed

text \<open>
  C3, amended: whenever the merger returns a list, that list is the fold of the
  specification over the input (\<open>spec_merge\<close>): a segment is absorbed into the last output
  segment exactly when the four conditions hold (\<open>continues\<close>: same speaker, the
  double-precision difference of its start time and the previous end time less than 2.0,
  same language, no moderation flags); absorption sets the end time, appends a space and
  the text, puts a space in front of the first absorbed token and appends the tokens
  (\<open>absorb\<close>); any other segment starts a new entry (\<open>spec_step\<close>). The merger does return
  a list when the first speaker label is not empty and every segment has a token. In the
  scenario of the specification the computed gaps are exact: a gap of 0.5 s merges, a gap
  of 3.0 s does not.
\<close>

theorem merge_refines_spec:
  "(merge_speaker_segments xs = Inr out \<longrightarrow> out = spec_merge xs)
   \<and> ((xs \<noteq> [] \<longrightarrow> segmentSpeaker (hd xs) \<noteq> '''') \<and> (\<forall>s\<in>set xs. segmentConfidence s \<noteq> [])
        \<longrightarrow> merge_speaker_segments xs = Inr (spec_merge xs))"
proof -
  have sound: "out' = spec_merge xs" if "merge_speaker_segments xs = Inr out'" for out'
  proof -
    from that obtain st where "merge_loop merge_init xs = Inr st" "out' = outputSegmentList st"
      by (auto simp: merge_speaker_segments_def split: sum.splits)
    with merge_loop_spec [OF merge_inv_init, of xs st] show ?thesis
      by (simp add: spec_merge_def merge_init_def)
  qed
  have total: "\<exists>out'. merge_speaker_segments xs = Inr out'"
    if hd: "xs \<noteq> [] \<longrightarrow> segmentSpeaker (hd xs) \<noteq> ''''"
      and toks: "\<forall>s\<in>set xs. segmentConfidence s \<noteq> []"
  proof (cases xs)
    case Nil
    then show ?thesis by (simp add: merge_speaker_segments_def)
  next
    case (Cons x rest)
    with hd have s1: "merge_step merge_init x = Inr (start_new merge_init x)"
      by (simp add: merge_step_def merge_init_def)
    have "\<exists>st'. merge_loop (start_new merge_init x) rest = Inr st'"
      using toks Cons by (intro merge_loop_total merge_inv_start_new) (auto simp: start_new_def)
    with s1 Cons show ?thesis by (auto simp: merge_speaker_segments_def)
  qed
  from sound total show ?thesis by blast
qed

theorem merge_refines_spec_witness:
  "merge_speaker_segments [turn_A, turn_B_near] = Inr [merged_AB]
   \<and> merge_speaker_segments [turn_A, turn_B_far] = Inr [turn_A, turn_B_far]"
proof -
  have near: "([turn_A, turn_B_near] \<noteq> [] \<longrightarrow> segmentSpeaker (hd [turn_A, turn_B_near]) \<noteq> '''')
      \<and> (\<forall>s\<in>set [turn_A, turn_B_near]. segmentConfidence s \<noteq> [])"
    by (simp add: turn_A_def turn_B_near_def seg_def)
  have far: "([turn_A, turn_B_far] \<noteq> [] \<longrightarrow> segmentSpeaker (hd [turn_A, turn_B_far]) \<noteq> '''')
      \<and> (\<forall>s\<in>set [turn_A, turn_B_far]. segmentConfidence s \<noteq> [])"
    by (simp add: turn_A_def turn_B_far_def seg_def)
  have spec_near: "spec_merge [turn_A, turn_B_near] = [merged_AB]"
    by (simp add: spec_merge_def spec_step_def continues_def absorb_def GAP_THRESHOLD_def
        turn_A_def turn_B_near_def merged_AB_def seg_def tok_def new_SpeechSegment_def
        float_eval)
  have spec_far: "spec_merge [turn_A, turn_B_far] = [turn_A, turn_B_far]"
    by (simp add: spec_merge_def spec_step_def continues_def absorb_def GAP_THRESHOLD_def
        turn_A_def turn_B_far_def seg_def tok_def new_SpeechSegment_def float_eval)
  from merge_refines_spec [of "[turn_A, turn_B_near]"] near
  have "merge_speaker_segments [turn_A, turn_B_near] = Inr (spec_merge [turn_A, turn_B_near])"
    by blast
  moreover from merge_refines_spec [of "[turn_A, turn_B_far]"] far
  have "merge_speaker_segments [turn_A, turn_B_far] = Inr (spec_merge [turn_A, turn_B_far])"
    by blast
  ultimately show ?thesis
    by (simp only: spec_near spec_far)
qed

subsection \<open>Merging twice\<close>

text \<open>
  C7. The merger is idempotent on its own output: if it returns the list \<open>L\<close> for some input,
  then run on \<open>L\<close> it returns \<open>L\<close> again, with every segment as it was.
\<close>

theorem merge_idempotent:
  assumes "merge_speaker_segments xs = Inr L"
  shows "merge_speaker_segments L = Inr L"
proof -
  from merge_output_shape [OF assms]
  have "\<exists>st'. merge_loop merge_init L = Inr st'
      \<and> outputSegmentList st' = outputSegmentList merge_init @ L"
    by (intro merge_loop_keeps merge_inv_init) (auto simp: merge_init_def)
  then show ?thesis
    by (auto simp: merge_speaker_segments_def merge_init_def)
qed

theorem merge_idempotent_witness:
  "merge_speaker_segments [turn_A, turn_B_near] = Inr [merged_AB]
   \<and> merge_speaker_segments [merged_AB] = Inr [merged_AB]"
proof -
  have a: "merge_speaker_segments [turn_A, turn_B_near] = Inr [merged_AB]"
    by (simp add: merge_eval turn_A_def turn_B_near_def merged_AB_def)
  from merge_idempotent [OF a] a show ?thesis
    by simp
qed

subsection \<open>Segments with moderation flags\<close>

text \<open>
  C1 as stated says that a flagged segment neither merges into its predecessor nor takes in
  a later segment. The second half fails: the loop tests the flags of the segment it is
  looking at, never those of \<^verbatim>\<open>lastSegment\<close>. After \<open>turn_A\<close>, the flagged \<open>turn_F\<close> starts
  its own entry although speaker, language and gap would let it merge; the unflagged
  \<open>turn_C\<close> that follows is then absorbed into \<open>turn_F\<close>.
\<close>

theorem flagged_absorbs_next_counterexample:
  "merge_speaker_segments [turn_A, turn_F, turn_C] = Inr [turn_A, merged_FC]"
  by (simp add: merge_eval turn_A_def turn_F_def turn_C_def merged_FC_def flag_profanity_def)

text \<open>
  C1, amended: a segment with moderation flags never merges into a predecessor. Whenever
  the merger returns a list for an input in which \<open>flagged\<close> follows the segments \<open>pre\<close>,
  that list is the merge of \<open>pre\<close> alone, then an entry that begins as \<open>flagged\<close> (same start
  time, speaker, language and flags; the text and tokens of \<open>flagged\<close> in front), then
  the rest; this holds whatever the speaker, the language and the gap. Later segments can
  be absorbed into that entry.
\<close>

theorem flagged_starts_new_entry:
  assumes "merge_speaker_segments (pre @ flagged # post) = Inr out"
    and "segmentContentModeration flagged \<noteq> []"
  shows "\<exists>out1 entry more. merge_speaker_segments pre = Inr out1
           \<and> out = out1 @ entry # more \<and> begins flagged entry"
proof -
  from assms(1) obtain st3 where l3: "merge_loop merge_init (pre @ flagged # post) = Inr st3"
    and out: "out = outputSegmentList st3"
    by (cases "merge_loop merge_init (pre @ flagged # post)")
      (simp_all add: merge_speaker_segments_def)
  from l3 obtain st1 where l1: "merge_loop merge_init pre = Inr st1"
    and l13: "merge_loop st1 (flagged # post) = Inr st3"
    by (cases "merge_loop merge_init pre") (simp_all add: merge_loop_append)
  from l13 obtain st2 where s2: "merge_step st1 flagged = Inr st2"
    and l23: "merge_loop st2 post = Inr st3"
    by (cases "merge_step st1 flagged") simp_all
  have inv1: "merge_inv st1"
    by (rule merge_loop_inv [OF merge_inv_init l1])
  have nc: "\<not> continues p flagged" for p
    using assms(2) by (simp add: continues_def)
  from merge_step_spec [OF inv1 s2] nc
  have o2: "outputSegmentList st2 = outputSegmentList st1 @ [flagged]"
    by (simp add: spec_step_def)
  from merge_loop_spec [OF merge_step_inv [OF inv1 s2] l23]
  have "out = foldl spec_step (outputSegmentList st1 @ [flagged]) post"
    by (simp add: out o2)
  with foldl_spec_step_grows [of "outputSegmentList st1 @ [flagged]" post]
  obtain entry more where "out = outputSegmentList st1 @ entry # more" "begins flagged entry"
    by auto
  moreover from l1 have "merge_speaker_segments pre = Inr (outputSegmentList st1)"
    by (simp add: merge_speaker_segments_def)
  ultimately show ?thesis by blast
qed

theorem flagged_starts_new_entry_witness:
  "merge_speaker_segments ([turn_A] @ turn_F # [turn_C]) = Inr [turn_A, merged_FC]
   \<and> segmentContentModeration turn_F \<noteq> []
   \<and> (\<exists>out1 entry more. merge_speaker_segments [turn_A] = Inr out1
         \<and> [turn_A, merged_FC] = out1 @ entry # more \<and> begins turn_F entry)"
proof -
  have a: "merge_speaker_segments ([turn_A] @ turn_F # [turn_C]) = Inr [turn_A, merged_FC]"
    by (simp add: merge_eval turn_A_def turn_F_def turn_C_def merged_FC_def flag_profanity_def)
  have b: "segmentContentModeration turn_F \<noteq> []"
    by (simp add: turn_F_def seg_def)
  from flagged_starts_new_entry [OF a b] a b show ?thesis
    by blast
qed

section \<open>Properties of the word assembler and the turn builder\<close>

lemmas build_eval =
  create_turn_by_turn_segments_def build_segments_def build_turn_def turn_tokens_def
  turn_moderation_def py_index_def lower_def lower_char_def cli_off_def float_eval

lemma word_loop_attached:
  "map (py_index items) ptrs = map Inr ws \<Longrightarrow> cl \<noteq> [] \<Longrightarrow>
   word_loop items (False, cl) ptrs =
     Inr (False,
          butlast cl
          @ [(last cl)\<lparr>w_text := w_text (last cl)
                @ concat (map item_content (takeWhile is_punctuation ws))\<rparr>]
          @ spec_tokens False (dropWhile is_punctuation ws))"
proof (induction ptrs arbitrary: ws cl)
  case Nil
  then show ?case by simp
next
  case (Cons p ps)
  from Cons.prems(1) obtain w ws' where ws: "ws = w # ws'"
    and p: "py_index items p = Inr w" and ps: "map (py_index items) ps = map Inr ws'"
    by (cases ws) auto
  show ?case
  proof (cases w)
    case (Punctuation c)
    let ?cl = "butlast cl @ [(last cl)\<lparr>w_text := w_text (last cl) @ c\<rparr>]"
    from Cons.prems(2) have step: "add_word (False, cl) w = Inr (False, ?cl)"
      by (cases cl) (simp_all add: Punctuation)
    have "?cl \<noteq> []" by simp
    from Cons.IH [OF ps this] step p show ?thesis
      by (simp add: ws Punctuation)
  next
    case (Word c s e)
    let ?t = "\<lparr>w_text = '' '' @ c, w_confidence = 1, w_start_time = float_div (float_of_int s) 1000,
                w_end_time = float_div (float_of_int e) 1000\<rparr>"
    have step: "add_word (False, cl) w = Inr (False, cl @ [?t])"
      by (simp add: Word)
    have "cl @ [?t] \<noteq> []" by simp
    from Cons.IH [OF ps this] step p Cons.prems(2) show ?thesis
      by (simp add: ws Word)
  qed
qed

lemma length_spec_tokens:
  "length (spec_tokens first ws) = length (filter (\<lambda>w. \<not> is_punctuation w) ws)"
proof (induction first ws rule: spec_tokens.induct)
  case (3 first c s e rest)
  have "length (filter (\<lambda>w. \<not> is_punctuation w) rest)
      = length (filter (\<lambda>w. \<not> is_punctuation w) (dropWhile is_punctuation rest))"
    by (induction rest) auto
  with 3 show ?case by simp
qed simp_all

lemma turn_loop_fails:
  "t \<in> set ts \<Longrightarrow> (\<And>i. \<exists>e. build_turn data cli i t = Inl e)
    \<Longrightarrow> \<exists>e. turn_loop data cli i acc ts = Inl e"
proof (induction ts arbitrary: i acc)
  case Nil
  then show ?case by simp
next
  case (Cons a ts)
  show ?case
  proof (cases "build_turn data cli i a")
    case (Inl e)
    then show ?thesis by simp
  next
    case (Inr s)
    with Cons.prems(2) [of i] have "a \<noteq> t" by auto
    with Cons.prems(1) have "t \<in> set ts" by simp
    from Cons.IH [OF this Cons.prems(2)] Inr show ?thesis by simp
  qed
qed

lemma turn_loop_built:
  "turn_loop data cli i acc ts = Inr segs \<Longrightarrow>
   \<exists>new. segs = acc @ new
     \<and> list_all2 (\<lambda>t s. turn_tokens (audio_items data) (audio_item_indices t)
                          = Inr (segmentConfidence s)
                        \<and> segmentText s = turn_text t) ts new"
proof (induction ts arbitrary: i acc)
  case Nil
  then show ?case by simp
next
  case (Cons t ts)
  from Cons.prems obtain s where b: "build_turn data cli i t = Inr s"
    and l: "turn_loop data cli (Suc i) (acc @ [s]) ts = Inr segs"
    by (cases "build_turn data cli i t") simp_all
  from b have s: "turn_tokens (audio_items data) (audio_item_indices t)
      = Inr (segmentConfidence s) \<and> segmentText s = turn_text t"
    by (auto simp: build_turn_def split: sum.splits)
  from Cons.IH [OF l] obtain new where "segs = acc @ s # new"
    and "list_all2 (\<lambda>t s. turn_tokens (audio_items data) (audio_item_indices t)
                          = Inr (segmentConfidence s)
                        \<and> segmentText s = turn_text t) ts new"
    by auto
  with s show ?case by auto
qed

lemma text_matches_copy_to_last:
  assumes "text_matches l" "text_matches s" "segmentConfidence s = w # ws"
  shows "text_matches (copy_to_last l s w ws)"
  using assms by (simp add: text_matches_def copy_to_last_def)

lemma merge_step_text_matches:
  assumes inv: "merge_inv st" and step: "merge_step st s = Inr st'"
    and out: "\<forall>x\<in>set (outputSegmentList st). text_matches x" and s: "text_matches s"
  shows "\<forall>x\<in>set (outputSegmentList st'). text_matches x"
proof (cases "outputSegmentList st \<noteq> [] \<and> continues (last (outputSegmentList st)) s")
  case True
  with step have "\<exists>w ws. segmentConfidence s = w # ws
      \<and> st' = st\<lparr>outputSegmentList := butlast (outputSegmentList st)
                 @ [copy_to_last (last (outputSegmentList st)) s w ws]\<rparr>"
    unfolding merge_step_char [OF inv]
    by (cases "segmentConfidence s") auto
  then obtain w ws where toks: "segmentConfidence s = w # ws"
    and st': "outputSegmentList st' = butlast (outputSegmentList st)
                 @ [copy_to_last (last (outputSegmentList st)) s w ws]"
    by auto
  from True out have "text_matches (last (outputSegmentList st))"
    by simp
  from text_matches_copy_to_last [OF this s toks] out show ?thesis
    by (auto simp: st' dest: in_set_butlastD)
next
  case False
  with step have "st' = start_new st s"
    unfolding merge_step_char [OF inv]
    by (simp split: if_splits)
  with out s show ?thesis
    by (simp add: start_new_def)
qed

lemma merge_loop_text_matches:
  "merge_inv st \<Longrightarrow> merge_loop st xs = Inr st'
    \<Longrightarrow> \<forall>x\<in>set (outputSegmentList st). text_matches x
    \<Longrightarrow> \<forall>x\<in>set xs. text_matches x
    \<Longrightarrow> \<forall>x\<in>set (outputSegmentList st'). text_matches x"
proof (induction xs arbitrary: st)
  case Nil
  then show ?case by simp
next
  case (Cons x xs)
  from Cons.prems(2) obtain st1 where s1: "merge_step st x = Inr st1"
    and l1: "merge_loop st1 xs = Inr st'"
    by (cases "merge_step st x") simp_all
  from Cons.prems(4) have x: "text_matches x" and xs: "\<forall>x\<in>set xs. text_matches x"
    by simp_all
  from Cons.IH [OF merge_step_inv [OF Cons.prems(1) s1] l1
      merge_step_text_matches [OF Cons.prems(1) s1 Cons.prems(3) x] xs]
  show ?case .
qed

lemma join_space_Cons:
  "ys \<noteq> [] \<Longrightarrow> join_space (x # ys) = x @ '' '' @ join_space ys"
  by (cases ys) simp_all

lemma join_space_append:
  "join_space (xs @ ys) =
     (if xs = [] then join_space ys else if ys = [] then join_space xs
      else join_space xs @ '' '' @ join_space ys)"
proof (induction xs)
  case Nil
  then show ?case by simp
next
  case (Cons x xs)
  show ?case
  proof (cases "xs = []")
    case True
    then show ?thesis by (cases ys) simp_all
  next
    case False
    with Cons show ?thesis by (simp add: join_space_Cons)
  qed
qed

lemma spec_step_texts:
  "join_space (map segmentText (spec_step out s))
     = join_space (map segmentText out @ [segmentText s])"
proof (cases "out \<noteq> [] \<and> continues (last out) s")
  case True
  then obtain ys l where out: "out = ys @ [l]"
    by (metis append_butlast_last_id)
  with True show ?thesis
    by (simp add: spec_step_def absorb_def join_space_append)
next
  case False
  then show ?thesis by (auto simp: spec_step_def)
qed

lemma spec_step_nonempty: "spec_step out s \<noteq> []"
  by (simp add: spec_step_def)

lemma foldl_spec_step_texts:
  "join_space (map segmentText (foldl spec_step out xs))
     = join_space (map segmentText out @ map segmentText xs)"
proof (induction xs arbitrary: out)
  case Nil
  then show ?case by simp
next
  case (Cons x xs)
  have "join_space (map segmentText (foldl spec_step out (x # xs)))
      = join_space (map segmentText (spec_step out x) @ map segmentText xs)"
    using Cons.IH [of "spec_step out x"] by simp
  also have "\<dots> = join_space ((map segmentText out @ [segmentText x]) @ map segmentText xs)"
    using spec_step_texts [of out x] spec_step_nonempty [of out x]
    by (simp only: join_space_append [of "map segmentText (spec_step out x)"]
        join_space_append [of "map segmentText out @ [segmentText x]"]) simp
  finally show ?case by simp
qed

lemma same_token_refl: "list_all2 same_token ws ws"
  by (simp add: list_all2_refl same_token_def)

lemma same_token_lead_space: "list_all2 same_token ws (lead_space ws)"
  by (cases ws) (simp_all add: same_token_def list_all2_refl)

lemma spec_step_tokens:
  "\<exists>e. concat (map segmentConfidence (spec_step out s))
         = concat (map segmentConfidence out) @ e
       \<and> list_all2 same_token (segmentConfidence s) e"
proof (cases "out \<noteq> [] \<and> continues (last out) s")
  case True
  then obtain ys l where out: "out = ys @ [l]"
    by (metis append_butlast_last_id)
  with True have "concat (map segmentConfidence (spec_step out s))
      = concat (map segmentConfidence out) @ lead_space (segmentConfidence s)"
    by (simp add: spec_step_def absorb_def)
  with same_token_lead_space show ?thesis by blast
next
  case False
  then have "concat (map segmentConfidence (spec_step out s))
      = concat (map segmentConfidence out) @ segmentConfidence s"
    by (auto simp: spec_step_def)
  with same_token_refl show ?thesis by blast
qed

lemma foldl_spec_step_tokens:
  "\<exists>e. concat (map segmentConfidence (foldl spec_step out xs))
         = concat (map segmentConfidence out) @ e
       \<and> list_all2 same_token (concat (map segmentConfidence xs)) e"
proof (induction xs arbitrary: out)
  case Nil
  then show ?case by simp
next
  case (Cons x xs)
  from spec_step_tokens [of out x] obtain e1 where
    e1: "concat (map segmentConfidence (spec_step out x))
         = concat (map segmentConfidence out) @ e1"
    and a1: "list_all2 same_token (segmentConfidence x) e1"
    by blast
  from Cons.IH [of "spec_step out x"] obtain e2 where
    e2: "concat (map segmentConfidence (foldl spec_step (spec_step out x) xs))
         = concat (map segmentConfidence (spec_step out x)) @ e2"
    and a2: "list_all2 same_token (concat (map segmentConfidence xs)) e2"
    by blast
  have "concat (map segmentConfidence (foldl spec_step out (x # xs)))
      = concat (map segmentConfidence out) @ (e1 @ e2)"
    by (simp add: e1 e2)
  moreover have "list_all2 same_token (concat (map segmentConfidence (x # xs))) (e1 @ e2)"
    using a1 a2 by (simp add: list_all2_appendI)
  ultimately show ?case by blast
qed

subsection \<open>The spacing rule\<close>

text \<open>
  C8. For a turn whose item indices resolve to the items \<open>ws\<close>, the assembler returns what the
  rule of the specification gives for \<open>ws\<close> (\<open>spec_assemble\<close>): the first timed item verbatim,
  every later timed item after one space, every untimed item appended without a space to
  the token before it. Untimed items make no token: there are as many tokens as timed
  items, each with the timing of its timed item. The witness is the word \<open>Hello\<close> followed by
  the punctuation item \<open>.\<close>, which give the single token \<open>Hello.\<close>
\<close>

theorem word_assembler_rule:
  assumes "map (py_index items) ptrs = map Inr ws"
  shows "turn_tokens items ptrs = spec_assemble ws
    \<and> (\<forall>toks. turn_tokens items ptrs = Inr toks
          \<longrightarrow> length toks = length (filter (\<lambda>w. \<not> is_punctuation w) ws))"
proof -
  have main: "turn_tokens items ptrs = spec_assemble ws"
  proof (cases ws)
    case Nil
    with assms show ?thesis by (simp add: turn_tokens_def spec_assemble_def)
  next
    case (Cons w ws')
    with assms obtain p ps where ptrs: "ptrs = p # ps"
      and p: "py_index items p = Inr w" and ps: "map (py_index items) ps = map Inr ws'"
      by (cases ptrs) auto
    show ?thesis
    proof (cases w)
      case (Punctuation c)
      with p show ?thesis
        by (simp add: turn_tokens_def spec_assemble_def ptrs Cons)
    next
      case (Word c s e)
      let ?t = "\<lparr>w_text = c, w_confidence = 1, w_start_time = float_div (float_of_int s) 1000,
                  w_end_time = float_div (float_of_int e) 1000\<rparr>"
      have "[?t] \<noteq> []" by simp
      from word_loop_attached [OF ps this] p show ?thesis
        by (simp add: turn_tokens_def spec_assemble_def ptrs Cons Word)
    qed
  qed
  have "length toks = length (filter (\<lambda>w. \<not> is_punctuation w) ws)"
    if "turn_tokens items ptrs = Inr toks" for toks
  proof -
    from that have "toks = spec_tokens True ws"
      unfolding main
      by (auto simp: spec_assemble_def split: list.splits audio_item.splits)
    then show ?thesis by (simp only: length_spec_tokens)
  qed
  with main show ?thesis by blast
qed

theorem word_assembler_rule_witness:
  "map (py_index items_hello) [0, 1] = map Inr items_hello
   \<and> turn_tokens items_hello [0, 1] = Inr [tok ''Hello.'' 0 0.5]"
proof -
  have a: "map (py_index items_hello) [0, 1] = map Inr items_hello"
    by (simp add: py_index_def items_hello_def)
  have "spec_assemble items_hello = Inr [tok ''Hello.'' 0 0.5]"
    by (simp add: spec_assemble_def items_hello_def tok_def float_eval)
  with word_assembler_rule [OF a] a show ?thesis
    by simp
qed

subsection \<open>Punctuation with no token before it\<close>

text \<open>
  C9. When the first item of a turn is untimed, the assembler raises \<^verbatim>\<open>IndexError\<close> for
  that turn (it reads \<^verbatim>\<open>segmentConfidence[-1]\<close> of an empty list), and
  \<^verbatim>\<open>create_turn_by_turn_segments\<close> ends with an exception and returns no segment list: the
  item is not dropped in silence.
\<close>

theorem leading_punctuation_raises:
  assumes "t \<in> set (audio_segments data)"
    and "audio_item_indices t = p # ps"
    and "py_index (audio_items data) p = Inr (Punctuation c)"
  shows "turn_tokens (audio_items data) (audio_item_indices t) = Inl IndexError
    \<and> (\<exists>e. create_turn_by_turn_segments data cli = Inl e)"
proof -
  from assms(2,3)
  have tt: "turn_tokens (audio_items data) (audio_item_indices t) = Inl IndexError"
    by (simp add: turn_tokens_def)
  then have "\<exists>e. build_turn data cli i t = Inl e" for i
    by (simp add: build_turn_def)
  from turn_loop_fails [OF assms(1) this]
  have "\<exists>e. build_segments data cli = Inl e"
    by (simp add: build_segments_def)
  then have "\<exists>e. create_turn_by_turn_segments data cli = Inl e"
    by (auto simp: create_turn_by_turn_segments_def)
  with tt show ?thesis by blast
qed

theorem leading_punctuation_raises_witness:
  "hd (audio_segments data_punct_first) \<in> set (audio_segments data_punct_first)
   \<and> audio_item_indices (hd (audio_segments data_punct_first)) = 0 # [1]
   \<and> py_index (audio_items data_punct_first) 0 = Inr (Punctuation ''.'')
   \<and> create_turn_by_turn_segments data_punct_first cli_off = Inl IndexError"
proof -
  have a: "hd (audio_segments data_punct_first) \<in> set (audio_segments data_punct_first)"
    by (simp add: data_punct_first_def)
  have b: "audio_item_indices (hd (audio_segments data_punct_first)) = 0 # [1]"
    by (simp add: data_punct_first_def)
  have c: "py_index (audio_items data_punct_first) 0 = Inr (Punctuation ''.'')"
    by (simp add: data_punct_first_def py_index_def)
  from leading_punctuation_raises [OF a b c, of cli_off]
  have "turn_tokens (audio_items data_punct_first)
          (audio_item_indices (hd (audio_segments data_punct_first))) = Inl IndexError"
    by blast
  then have "create_turn_by_turn_segments data_punct_first cli_off = Inl IndexError"
    by (simp add: create_turn_by_turn_segments_def build_segments_def build_turn_def
        data_punct_first_def)
  with a b c show ?thesis
    by simp
qed

subsection \<open>Texts and tokens through assembly and merge\<close>

text \<open>
  C5 as stated says that the text of every segment is the concatenation of the texts of its
  tokens. The builder never computes the text from the tokens: it copies \<^verbatim>\<open>turn["text"]\<close>.
  For a turn whose text is \<open>Hello there\<close> and whose only item is the word \<open>Hi\<close>, the output
  segment has the text \<open>Hello there\<close> and the single token \<open>Hi\<close>.
\<close>

theorem text_not_from_tokens_counterexample:
  "create_turn_by_turn_segments data_mismatch cli_off
     = Inr [seg ''spk_0'' ''en'' 0 0.5 ''Hello there'' [tok ''Hi'' 0 0.5] []]
   \<and> segmentText (seg ''spk_0'' ''en'' 0 0.5 ''Hello there'' [tok ''Hi'' 0 0.5] [])
       = ''Hello there''
   \<and> concat (map w_text
        (segmentConfidence (seg ''spk_0'' ''en'' 0 0.5 ''Hello there'' [tok ''Hi'' 0 0.5] [])))
       = ''Hi''"
  by (simp add: build_eval data_mismatch_def merge_eval)

text \<open>
  C5, amended: when the text of every input turn is the concatenation of the texts of the
  tokens assembled from its items, and \<^verbatim>\<open>create_turn_by_turn_segments\<close> returns a list, then
  the text of every output segment is the concatenation of the texts of its tokens; the
  output texts joined by single spaces are the input turn texts joined by single spaces;
  and the tokens of the output segments, in order, are the tokens assembled from the input,
  in order, none lost and none twice, each as it was or with the one leading space the
  merger puts in front of the first token of an absorbed segment.
\<close>

theorem texts_and_tokens_preserved:
  assumes run: "create_turn_by_turn_segments data cli = Inr out"
    and texts: "\<forall>t\<in>set (audio_segments data). turn_text_matches data t"
  shows "(\<forall>s\<in>set out. text_matches s)
    \<and> join_space (map segmentText out) = join_space (map turn_text (audio_segments data))
    \<and> list_all2 same_token (input_tokens data) (concat (map segmentConfidence out))"
proof -
  let ?P = "\<lambda>t s. turn_tokens (audio_items data) (audio_item_indices t)
                     = Inr (segmentConfidence s) \<and> segmentText s = turn_text t"
  from run obtain segs where b: "build_segments data cli = Inr segs"
    and m: "merge_speaker_segments segs = Inr out"
    by (cases "build_segments data cli") (simp_all add: create_turn_by_turn_segments_def)
  from turn_loop_built [of data cli 0 "[]" "audio_segments data" segs] b
  have built: "list_all2 ?P (audio_segments data) segs"
    by (simp add: build_segments_def)
  from m obtain st where l: "merge_loop merge_init segs = Inr st"
    and out: "out = outputSegmentList st"
    by (cases "merge_loop merge_init segs") (simp_all add: merge_speaker_segments_def)
  have out_spec: "out = foldl spec_step [] segs"
    using merge_loop_spec [OF merge_inv_init l] by (simp add: out merge_init_def)
  have seg_texts: "map segmentText segs = map turn_text (audio_segments data)"
    using built by (induction rule: list_all2_induct) simp_all
  have seg_tokens: "concat (map segmentConfidence segs) = input_tokens data"
    unfolding input_tokens_def
    using built by (induction rule: list_all2_induct) simp_all
  have "\<forall>s\<in>set segs. text_matches s"
    using built texts
    by (induction rule: list_all2_induct)
      (auto simp: turn_text_matches_def text_matches_def)
  with merge_loop_text_matches [OF merge_inv_init l]
  have c1: "\<forall>s\<in>set out. text_matches s"
    by (simp add: out merge_init_def)
  have c2: "join_space (map segmentText out) = join_space (map turn_text (audio_segments data))"
    using foldl_spec_step_texts [of "[]" segs] by (simp add: out_spec seg_texts)
  have c3: "list_all2 same_token (input_tokens data) (concat (map segmentConfidence out))"
    using foldl_spec_step_tokens [of "[]" segs] by (auto simp: out_spec seg_tokens)
  from c1 c2 c3 show ?thesis by blast
qed

theorem texts_and_tokens_preserved_witness:
  "create_turn_by_turn_segments data_ok cli_off = Inr [merged_12]
   \<and> turn_text_matches data_ok turn_1 \<and> turn_text_matches data_ok turn_2
   \<and> text_matches merged_12
   \<and> join_space (map segmentText [merged_12]) = ''Hello. How are you?''
   \<and> list_all2 same_token (input_tokens data_ok) (segmentConfidence merged_12)"
proof -
  have a: "create_turn_by_turn_segments data_ok cli_off = Inr [merged_12]"
    by (simp add: build_eval data_ok_def turn_1_def turn_2_def merged_12_def merge_eval)
  have t1: "turn_text_matches data_ok turn_1"
    by (simp add: turn_text_matches_def turn_tokens_def py_index_def data_ok_def turn_1_def)
  have t2: "turn_text_matches data_ok turn_2"
    by (simp add: turn_text_matches_def turn_tokens_def py_index_def data_ok_def turn_2_def)
  from t1 t2 have b: "\<forall>t\<in>set (audio_segments data_ok). turn_text_matches data_ok t"
    by (simp add: data_ok_def)
  have c: "join_space (map turn_text (audio_segments data_ok)) = ''Hello. How are you?''"
    by (simp add: data_ok_def turn_1_def turn_2_def)
  from texts_and_tokens_preserved [OF a b] a t1 t2 c show ?thesis
    by simp
qed

section \<open>Properties of the sentiment classifier\<close>

subsection \<open>Segments reach the classifier as the constructor left them\<close>

lemma build_turn_unscored: "build_turn data cli i t = Inr s \<Longrightarrow> unscored s"
  by (auto simp: build_turn_def unscored_def new_SpeechSegment_def split: sum.splits)

lemma turn_loop_unscored:
  "turn_loop data cli i acc ts = Inr segs \<Longrightarrow> \<forall>x\<in>set acc. unscored x
    \<Longrightarrow> \<forall>x\<in>set segs. unscored x"
proof (induction ts arbitrary: i acc)
  case Nil
  then show ?case by simp
next
  case (Cons t ts)
  from Cons.prems(1) obtain s where b: "build_turn data cli i t = Inr s"
    and l: "turn_loop data cli (Suc i) (acc @ [s]) ts = Inr segs"
    by (cases "build_turn data cli i t") simp_all
  from build_turn_unscored [OF b] Cons.prems(2) have "\<forall>x\<in>set (acc @ [s]). unscored x"
    by simp
  from Cons.IH [OF l this] show ?case .
qed

lemma unscored_absorb: "unscored (absorb l s) = unscored l"
  by (simp add: unscored_def absorb_def)

lemma spec_step_unscored:
  assumes "\<forall>x\<in>set out. unscored x" and "unscored s"
  shows "\<forall>x\<in>set (spec_step out s). unscored x"
proof (cases "out \<noteq> [] \<and> continues (last out) s")
  case True
  with assms(1) have "unscored (absorb (last out) s)"
    by (simp add: unscored_absorb)
  with True assms(1) show ?thesis
    by (auto simp: spec_step_def dest: in_set_butlastD)
next
  case False
  with assms show ?thesis
    by (auto simp: spec_step_def)
qed

lemma foldl_spec_step_unscored:
  "\<forall>x\<in>set out. unscored x \<Longrightarrow> \<forall>x\<in>set xs. unscored x
    \<Longrightarrow> \<forall>x\<in>set (foldl spec_step out xs). unscored x"
proof (induction xs arbitrary: out)
  case Nil
  then show ?case by simp
next
  case (Cons x xs)
  from Cons.prems have "\<forall>y\<in>set (spec_step out x). unscored y"
    by (intro spec_step_unscored) simp_all
  from Cons.IH [OF this] Cons.prems(2) show ?case by simp
qed

lemma created_unscored:
  assumes "create_turn_by_turn_segments data cli = Inr segs"
  shows "\<forall>s\<in>set segs. unscored s"
proof -
  from assms obtain built where b: "build_segments data cli = Inr built"
    and m: "merge_speaker_segments built = Inr segs"
    by (cases "build_segments data cli") (simp_all add: create_turn_by_turn_segments_def)
  from turn_loop_unscored [of data cli 0 "[]" "audio_segments data" built] b
  have u: "\<forall>x\<in>set built. unscored x"
    by (simp add: build_segments_def)
  from m obtain st where l: "merge_loop merge_init built = Inr st"
    and segs: "segs = outputSegmentList st"
    by (cases "merge_loop merge_init built") (simp_all add: merge_speaker_segments_def)
  from merge_loop_spec [OF merge_inv_init l] have "segs = foldl spec_step [] built"
    by (simp add: segs merge_init_def)
  with foldl_spec_step_unscored [of "[]" built] u show ?thesis
    by simp
qed

subsection \<open>The loop of the classifier\<close>

lemma generate_sentiment_nth:
  "generate_sentiment client segs = Inr out \<Longrightarrow>
   length out = length segs
   \<and> (\<forall>i<length segs. sentiment_segment client (segs ! i) = Inr (out ! i))"
proof (induction segs arbitrary: out)
  case Nil
  then show ?case by simp
next
  case (Cons s segs)
  from Cons.prems obtain s' where h: "sentiment_segment client s = Inr s'"
    by (cases "sentiment_segment client s") simp_all
  with Cons.prems obtain rest where r: "generate_sentiment client segs = Inr rest"
    and out: "out = s' # rest"
    by (cases "generate_sentiment client segs") auto
  from Cons.IH [OF r] h show ?case
    by (auto simp: out nth_Cons split: nat.splits)
qed

lemma store_sentiment_kept:
  "segmentPositive (store_sentiment s r) = Positive r"
  "segmentNegative (store_sentiment s r) = Negative r"
  "segmentAllSentiments (store_sentiment s r) = Some r"
  by (simp_all add: store_sentiment_def Let_def)

lemma store_sentiment_negative:
  assumes "unscored s" and "Negative r \<ge> MIN_SENTIMENT_NEGATIVE"
  shows "segmentIsNegative (store_sentiment s r) \<and> \<not> segmentIsPositive (store_sentiment s r)
    \<and> segmentSentimentScore (store_sentiment s r) = Negative r"
  using assms by (simp add: store_sentiment_def Let_def unscored_def)

lemma store_sentiment_positive:
  assumes "unscored s" and "Negative r < MIN_SENTIMENT_NEGATIVE"
    and "Positive r \<ge> MIN_SENTIMENT_POSITIVE"
  shows "segmentIsPositive (store_sentiment s r) \<and> \<not> segmentIsNegative (store_sentiment s r)
    \<and> segmentSentimentScore (store_sentiment s r) = Positive r"
  using assms by (simp add: store_sentiment_def Let_def unscored_def)

lemma store_sentiment_neutral:
  assumes "unscored s" and "Negative r < MIN_SENTIMENT_NEGATIVE"
    and "Positive r < MIN_SENTIMENT_POSITIVE"
  shows "\<not> segmentIsPositive (store_sentiment s r) \<and> \<not> segmentIsNegative (store_sentiment s r)
    \<and> segmentSentimentScore (store_sentiment s r) = - 1"
  using assms by (simp add: store_sentiment_def Let_def unscored_def)

text \<open>
  C4. The segments \<open>segs\<close> are those that \<^verbatim>\<open>create_turn_by_turn_segments\<close> returns, and
  \<^verbatim>\<open>generate_sentiment\<close> runs over them and returns \<open>out\<close> (one segment per input segment).
  For a segment that is scored (number \<open>i\<close>: its language is supported, its text has at
  least 16 characters, and the call returns the scores \<open>r\<close>): if the negative score is at
  least \<^verbatim>\<open>MIN_SENTIMENT_NEGATIVE\<close>, the double 0.4, the segment is marked negative, not
  positive, and its score is the negative score, whatever the positive score; otherwise,
  if the positive score is at least \<^verbatim>\<open>MIN_SENTIMENT_POSITIVE\<close>, the double 0.6, it is
  marked positive, not negative, and its score is the positive score; otherwise it has
  neither mark and its score is the value -1.0 of the constructor. In all three cases the
  two raw scores and the whole response are stored on the segment.
\<close>

theorem sentiment_thresholds:
  assumes built: "create_turn_by_turn_segments data cli = Inr segs"
    and run: "generate_sentiment client segs = Inr out"
    and i: "i < length segs"
    and lang: "segmentLanguage (segs ! i) \<in> set SENTIMENT_LANGUAGES"
    and len: "length (segmentText (segs ! i)) \<ge> MIN_SENTIMENT_LENGTH"
    and resp: "client (segmentText (segs ! i)) (segmentLanguage (segs ! i)) = Inr r"
  shows "length out = length segs
    \<and> segmentPositive (out ! i) = Positive r \<and> segmentNegative (out ! i) = Negative r
    \<and> segmentAllSentiments (out ! i) = Some r
    \<and> (Negative r \<ge> MIN_SENTIMENT_NEGATIVE \<longrightarrow>
         segmentIsNegative (out ! i) \<and> \<not> segmentIsPositive (out ! i)
         \<and> segmentSentimentScore (out ! i) = Negative r)
    \<and> (Negative r < MIN_SENTIMENT_NEGATIVE \<and> Positive r \<ge> MIN_SENTIMENT_POSITIVE \<longrightarrow>
         segmentIsPositive (out ! i) \<and> \<not> segmentIsNegative (out ! i)
         \<and> segmentSentimentScore (out ! i) = Positive r)
    \<and> (Negative r < MIN_SENTIMENT_NEGATIVE \<and> Positive r < MIN_SENTIMENT_POSITIVE \<longrightarrow>
         \<not> segmentIsPositive (out ! i) \<and> \<not> segmentIsNegative (out ! i)
         \<and> segmentSentimentScore (out ! i) = - 1)"
proof -
  from created_unscored [OF built] i have fresh: "unscored (segs ! i)"
    by simp
  from generate_sentiment_nth [OF run] i
  have n: "length out = length segs"
    and "sentiment_segment client (segs ! i) = Inr (out ! i)"
    by simp_all
  with lang len resp have o: "out ! i = store_sentiment (segs ! i) r"
    by (simp add: sentiment_segment_def)
  from n store_sentiment_kept [of "segs ! i" r]
    store_sentiment_negative [OF fresh, of r]
    store_sentiment_positive [OF fresh, of r]
    store_sentiment_neutral [OF fresh, of r]
  show ?thesis
    unfolding o by blast
qed

theorem sentiment_thresholds_witness:
  "create_turn_by_turn_segments data_long cli_off = Inr [turn_long]
   \<and> generate_sentiment (\<lambda>t l. Inr score_positive) [turn_long]
       = Inr [turn_long\<lparr>segmentIsPositive := True,
                        segmentSentimentScore := float_literal 0.65,
                        segmentAllSentiments := Some score_positive,
                        segmentPositive := float_literal 0.65,
                        segmentNegative := float_literal 0.1\<rparr>]
   \<and> (\<exists>out. generate_sentiment (\<lambda>t l. Inr score_neutral) [turn_long] = Inr out
         \<and> \<not> segmentIsPositive (out ! 0) \<and> \<not> segmentIsNegative (out ! 0)
         \<and> segmentSentimentScore (out ! 0) = - 1
         \<and> segmentPositive (out ! 0) = float_literal 0.3
         \<and> segmentNegative (out ! 0) = float_literal 0.1)
   \<and> (\<exists>out. generate_sentiment (\<lambda>t l. Inr score_both) [turn_long] = Inr out
         \<and> segmentIsNegative (out ! 0) \<and> \<not> segmentIsPositive (out ! 0)
         \<and> segmentSentimentScore (out ! 0) = float_literal 0.5)"
proof -
  have low: "lower ''EN'' = ''en''"
    by code_simp
  have built: "create_turn_by_turn_segments data_long cli_off = Inr [turn_long]"
    by (simp add: create_turn_by_turn_segments_def build_segments_def build_turn_def
        turn_tokens_def turn_moderation_def py_index_def cli_off_def low data_long_def
        turn_long_def merge_eval)
  have i: "0 < length [turn_long]"
    by simp
  have lang: "segmentLanguage ([turn_long] ! 0) \<in> set SENTIMENT_LANGUAGES"
    by (simp add: turn_long_def seg_def SENTIMENT_LANGUAGES_def)
  have len: "length (segmentText ([turn_long] ! 0)) \<ge> MIN_SENTIMENT_LENGTH"
    by (simp add: turn_long_def seg_def MIN_SENTIMENT_LENGTH_def)
  have first: "generate_sentiment (\<lambda>t l. Inr score_positive) [turn_long]
       = Inr [turn_long\<lparr>segmentIsPositive := True,
                        segmentSentimentScore := float_literal 0.65,
                        segmentAllSentiments := Some score_positive,
                        segmentPositive := float_literal 0.65,
                        segmentNegative := float_literal 0.1\<rparr>]"
    using lang len
    by (simp add: sentiment_segment_def store_sentiment_def score_positive_def
        MIN_SENTIMENT_NEGATIVE_def MIN_SENTIMENT_POSITIVE_def float_eval)
  have run2: "generate_sentiment (\<lambda>t l. Inr score_neutral) [turn_long]
       = Inr [store_sentiment turn_long score_neutral]"
    using lang len by (simp add: sentiment_segment_def)
  have cmp2: "Negative score_neutral < MIN_SENTIMENT_NEGATIVE
      \<and> Positive score_neutral < MIN_SENTIMENT_POSITIVE"
    by (simp add: score_neutral_def MIN_SENTIMENT_NEGATIVE_def MIN_SENTIMENT_POSITIVE_def
        float_eval)
  from sentiment_thresholds [OF built run2 i lang len, of score_neutral] cmp2
  have second: "\<not> segmentIsPositive ([store_sentiment turn_long score_neutral] ! 0)
      \<and> \<not> segmentIsNegative ([store_sentiment turn_long score_neutral] ! 0)
      \<and> segmentSentimentScore ([store_sentiment turn_long score_neutral] ! 0) = - 1
      \<and> segmentPositive ([store_sentiment turn_long score_neutral] ! 0) = float_literal 0.3
      \<and> segmentNegative ([store_sentiment turn_long score_neutral] ! 0) = float_literal 0.1"
    by (simp add: score_neutral_def)
  have run3: "generate_sentiment (\<lambda>t l. Inr score_both) [turn_long]
       = Inr [store_sentiment turn_long score_both]"
    using lang len by (simp add: sentiment_segment_def)
  have cmp3: "Negative score_both \<ge> MIN_SENTIMENT_NEGATIVE"
    by (simp add: score_both_def MIN_SENTIMENT_NEGATIVE_def float_eval)
  from sentiment_thresholds [OF built run3 i lang len, of score_both] cmp3
  have third: "segmentIsNegative ([store_sentiment turn_long score_both] ! 0)
      \<and> \<not> segmentIsPositive ([store_sentiment turn_long score_both] ! 0)
      \<and> segmentSentimentScore ([store_sentiment turn_long score_both] ! 0) = float_literal 0.5"
    by (simp add: score_both_def)
  from built first run2 second run3 third show ?thesis
    by blast
qed

section \<open>Properties of the row loop\<close>

text \<open>An integer is never an element of the list of topic dictionaries, so the test at the
  end of the loop body is false for every segment and every topic list.\<close>

lemma end_test_false: "\<not> py_in (PyInt n) (map PyDict topics)"
  by (auto simp: py_in_def)

text \<open>Hence the loop never leaves early: when it returns, there is one row per segment, in
  the order of the segments.\<close>

lemma write_rows_all:
  "write_rows segs tt tu rows = Inr result
    \<Longrightarrow> map row_segment result = map row_segment rows @ segs"
proof (induction segs arbitrary: tt tu rows)
  case Nil
  then show ?case by simp
next
  case (Cons s segs)
  let ?m = "mark_topics (py_int (float_mul (segmentStartTime s) 1000)) tt tu []"
  from Cons.prems obtain tt' tu' ms where m: "?m = Inr (tt', tu', ms)"
    by (cases ?m) auto
  with Cons.prems
  have "write_rows segs tt' tu' (rows @ [\<lparr>row_markers = ms, row_segment = s\<rparr>]) = Inr result"
    by (simp add: Let_def end_test_false)
  from Cons.IH [OF this] show ?case by simp
qed

lemma write_transcribe_text_all:
  "write_transcribe_text segs topics = Inr result \<Longrightarrow> map row_segment result = segs"
  using write_rows_all [of segs topics _ "[]" result]
  by (simp add: write_transcribe_text_def)

text \<open>
  C2. The claim: a segment whose end time in milliseconds equals the timestamp of a topic
  event is a stopping point, and the row loop stops at it. The loop's comment says so, but
  its test looks the integer up in \<^verbatim>\<open>timed_topics\<close>, the list of dictionaries, and not in
  the list of their \<^verbatim>\<open>start_time\<close> values, so the test never holds. Evaluated on two
  segments of which the first ends at 1.0 s, with a topic at 1000 ms, the loop writes both
  rows: it does not stop after the first (and marks the second, which starts at 1.0 s, with
  topic 1).
\<close>

theorem row_loop_does_not_stop:
  "write_transcribe_text [turn_R1, turn_R2] [topic_at_1000]
     = Inr [\<lparr>row_markers = [], row_segment = turn_R1\<rparr>,
            \<lparr>row_markers = [1], row_segment = turn_R2\<rparr>]"
  by (simp add: write_transcribe_text_def py_int_def py_in_def pop_def topic_at_1000_def
      turn_R1_def turn_R2_def seg_def tok_def new_SpeechSegment_def float_eval)

end
